theory Spec2Isabelle
  imports Main "HOL-Library.AList"
begin

section \<open>Data model of \<open>ipi/pipelines.py\<close>\<close>

text \<open>
  Python dictionaries keep insertion order, and the code iterates over them, so a
  dictionary is an association list: \<open>d[k] = v\<close> is \<open>AList.update k v d\<close> (replaces in
  place or appends), \<open>del d[k]\<close> is \<open>AList.delete k d\<close>, \<open>k in d\<close> is \<open>dict_contains\<close> and
  \<open>d.get(k, None)\<close> is \<open>map_of d k\<close>.
\<close>

type_synonym ('k, 'v) dict = "('k \<times> 'v) list"

definition dict_contains :: "'k \<Rightarrow> ('k, 'v) dict \<Rightarrow> bool" where
  "dict_contains k d = (k \<in> set (map fst d))"

text \<open>\<open>d.update(other)\<close>: every item of \<open>other\<close>, in its order, is stored into \<open>d\<close>.\<close>

definition dict_update :: "('k, 'v) dict \<Rightarrow> ('k, 'v) dict \<Rightarrow> ('k, 'v) dict" where
  "dict_update d other = fold (\<lambda>kv acc. AList.update (fst kv) (snd kv) acc) other d"

text \<open>A \<open>pathlib.Path\<close> is the list of its components; \<open>p / s\<close> appends one.\<close>

type_synonym path = "string list"

definition path_div :: "path \<Rightarrow> string \<Rightarrow> path" where
  "path_div p s = p @ [s]"

text \<open>
  The values the stage collections hold: the integer \<open>1\<close> (\<open>toFetch[el] = 1\<close>,
  \<open>thisRoundCollection[el] = 1\<close>) or a source directory. Both are truthy in Python (a
  \<open>Path\<close> defines neither \<open>__bool__\<close> nor \<open>__len__\<close>).
\<close>

datatype entry = One | Dir path

fun entry_truthy :: "entry \<Rightarrow> bool" where
  "entry_truthy One = True"
| "entry_truthy (Dir p) = True"

text \<open>
  \<open>Requirement\<close>, the metadata and the installed version come from
  \<open>utils.metadataExtractor\<close> and \<open>packaging\<close>, which are not among the sources: a
  version and a specifier set are kept as their text, and what a specifier accepts is a
  parameter of the environment below.
\<close>

type_synonym version = string
type_synonym specifier = string

record Requirement =
  req_name :: string
  specifier :: specifier
  marker :: "string option"

record PackageMetadata =
  md_name :: string
  deps :: "Requirement list"
  buildDeps :: "Requirement list"

text \<open>
  Modelled from the spec: the enum \<open>Source\<close> and the class \<open>SourceFetcher\<close> of
  \<open>deps.fetchers\<close> are not among the sources. The code names the members \<open>system\<close> and
  \<open>git\<close>; a fetch specification has a kind, a location and an optional depth, ref and
  subdirectory, and line 141 reads \<open>.fetcher.type\<close> of every lookup result, also of one
  that is not a \<open>SourceFetcher\<close>.
\<close>

datatype Source = system | git | unlisted string

record SourceFetcher =
  fetcher_type :: Source
  repo :: string
  refSpec :: "string option"
  depth :: "nat option"
  subDir :: "string option"

datatype fetcherSpec = SourceFetcherSpec SourceFetcher | OtherSpec Source

fun spec_type :: "fetcherSpec \<Rightarrow> Source" where
  "spec_type (SourceFetcherSpec sf) = fetcher_type sf"
| "spec_type (OtherSpec t) = t"

text \<open>The value of \<open>registry.lookup(name).pkg\<close>.\<close>

record pkg =
  pkg_name :: string
  fetcher :: fetcherSpec

text \<open>One invocation of an external fetcher: \<open>fetcher(repo, outDir, depth=, refSpec=)\<close>.\<close>

record fetcher_call =
  call_fetcher :: string
  call_repo :: string
  call_outDir :: path
  call_depth :: "nat option"
  call_refSpec :: "string option"

text \<open>
  The external collaborators, as parameters: the registry, the table \<open>fetchers\<close> (the
  mechanism registered for a kind, if any), the metadata extractor (called with the value
  stored in \<open>fetched\<close>), \<open>install.getInstalledPackageVersion\<close>, whether a specifier set
  accepts a version, the \<open>unpin\<close> library's \<open>filterSpecifiers\<close> (\<open>None\<close> when the library
  cannot be imported), the name of \<open>canonicalizedRequirement(el)\<close>, and the name
  \<open>TemporaryDirectory\<close> picks.
\<close>

record env =
  registry_lookup :: "string \<Rightarrow> pkg"
  fetchers :: "Source \<Rightarrow> string option"
  extractMetadata :: "entry \<Rightarrow> PackageMetadata"
  getInstalledPackageVersion :: "string \<Rightarrow> version option"
  satisfies :: "specifier \<Rightarrow> version \<Rightarrow> bool"
  filterSpecifiers :: "(specifier \<Rightarrow> specifier) option"
  canonicalizedRequirement_name :: "string \<Rightarrow> string"
  tmp_name :: string

datatype error = NotImplementedError | UnboundLocalError | KeyError | RuntimeError

subsection \<open>\<open>deps/unpin.py\<close>\<close>

text \<open>
  With the \<open>unpin\<close> library the specifier is filtered in place; without it the
  fallback replaces it by the empty \<open>SpecifierSet\<close>.
\<close>

definition unpinRequirement :: "env \<Rightarrow> Requirement \<Rightarrow> Requirement" where
  "unpinRequirement e req =
     (case filterSpecifiers e of
        None \<Rightarrow> req\<lparr>specifier := []\<rparr>
      | Some f \<Rightarrow> req\<lparr>specifier := f (specifier req)\<rparr>)"

subsection \<open>\<open>ResolutionPrefs\<close>\<close>

record ResolutionPrefs =
  upgrade :: bool
  resolveDeps :: bool
  forceReinstall :: bool

definition clone :: "ResolutionPrefs \<Rightarrow> bool option \<Rightarrow> bool option \<Rightarrow> bool option \<Rightarrow> ResolutionPrefs" where
  "clone self upgrade' resolveDeps' forceReinstall' =
     \<lparr>upgrade = (case upgrade' of None \<Rightarrow> upgrade self | Some b \<Rightarrow> b),
      resolveDeps = (case resolveDeps' of None \<Rightarrow> resolveDeps self | Some b \<Rightarrow> b),
      forceReinstall = (case forceReinstall' of None \<Rightarrow> forceReinstall self | Some b \<Rightarrow> b)\<rparr>"

text \<open>
  A \<open>prefsPatch\<close> is the keyword dictionary handed to \<open>clone(**patch)\<close>: an override
  for each of the three fields, or none.
\<close>

record prefsPatch =
  patch_upgrade :: "bool option"
  patch_resolveDeps :: "bool option"
  patch_forceReinstall :: "bool option"

definition clone_patch :: "ResolutionPrefs \<Rightarrow> prefsPatch \<Rightarrow> ResolutionPrefs" where
  "clone_patch self p = clone self (patch_upgrade p) (patch_resolveDeps p) (patch_forceReinstall p)"

subsection \<open>\<open>ResolutionSubRound\<close>\<close>

datatype ResolutionSubRoundPipelineStage =
  notResolved | stage_fetched | depsResolved | built | installed

text \<open>An \<open>IntEnum\<close> member is truthy unless its value is 0.\<close>

fun stage_truthy :: "ResolutionSubRoundPipelineStage \<Rightarrow> bool" where
  "stage_truthy notResolved = False"
| "stage_truthy _ = True"

datatype ResolutionRoundSubRound = Build | Pkgs

record ResolutionSubRound =
  idx :: ResolutionRoundSubRound
  packageTypeName :: string
  depsGetter :: "ResolutionPrefs \<Rightarrow> PackageMetadata \<Rightarrow> Requirement list"
  moveToThis :: bool
  prefsPatch :: prefsPatch
  toFetch :: "(string, entry) dict"
  fetched :: "(string, entry) dict"
  resolved :: "(string, entry) dict"
  ignored :: "(string, pkg) dict"

definition new_ResolutionSubRound ::
  "ResolutionRoundSubRound \<Rightarrow> string \<Rightarrow> (ResolutionPrefs \<Rightarrow> PackageMetadata \<Rightarrow> Requirement list)
     \<Rightarrow> bool \<Rightarrow> prefsPatch \<Rightarrow> ResolutionSubRound" where
  "new_ResolutionSubRound i tn dg mv pp =
     \<lparr>idx = i, packageTypeName = tn, depsGetter = dg, moveToThis = mv, prefsPatch = pp,
      toFetch = [], fetched = [], resolved = [], ignored = []\<rparr>"

text \<open>\<open>__bool__\<close>: a lane has work while \<open>toFetch\<close> is not empty.\<close>

definition subround_bool :: "ResolutionSubRound \<Rightarrow> bool" where
  "subround_bool self = (toFetch self \<noteq> [])"

subsubsection \<open>\<open>isReInstallationNeeded\<close>\<close>

text \<open>
  \<open>el.specifier.filter((version,), prereleases=True)\<close> keeps the versions the specifier
  accepts; the code tests whether the resulting list is empty.
\<close>

definition specifier_filter :: "env \<Rightarrow> specifier \<Rightarrow> version list \<Rightarrow> version list" where
  "specifier_filter e sp vs = filter (satisfies e sp) vs"

definition isReInstallationNeeded :: "env \<Rightarrow> Requirement \<Rightarrow> ResolutionPrefs \<Rightarrow> bool" where
  "isReInstallationNeeded e el prefs =
     (if marker el \<noteq> None then False
      else
        (case getInstalledPackageVersion e (req_name el) of
           Some ver \<Rightarrow>
             (if \<not> upgrade prefs then
                (if forceReinstall prefs then True
                 else if specifier_filter e (specifier el) [ver] \<noteq> [] then False
                 else True)
              else True)
         | None \<Rightarrow> True))"

subsubsection \<open>\<open>clonePackagesRepos\<close> and \<open>fetch\<close>\<close>

text \<open>
  The loop of \<open>clonePackagesRepos\<close> over the names, with its accumulators \<open>res\<close> and
  \<open>ignored\<close> and the fetcher invocations made so far. A lookup result whose
  specification is not a \<open>SourceFetcher\<close>, or whose kind has no entry in \<open>fetchers\<close>,
  is appended to \<open>ignored\<close>; otherwise the fetcher runs and \<open>res[name]\<close> is the
  directory (below \<open>subDir\<close> when that is set and not empty).
\<close>

fun clonePackagesRepos_loop ::
  "env \<Rightarrow> path \<Rightarrow> string list
     \<Rightarrow> (string, entry) dict \<times> pkg list \<times> fetcher_call list
     \<Rightarrow> (string, entry) dict \<times> pkg list \<times> fetcher_call list" where
  "clonePackagesRepos_loop e targetDir [] acc = acc"
| "clonePackagesRepos_loop e targetDir (nm # rest) (res, ign, calls) =
     (let outDir = path_div targetDir nm;
          lookupRes = registry_lookup e nm;
          fetcherSpec = fetcher lookupRes
      in case fetcherSpec of
           SourceFetcherSpec sf \<Rightarrow>
             (case fetchers e (fetcher_type sf) of
                None \<Rightarrow> clonePackagesRepos_loop e targetDir rest (res, ign @ [lookupRes], calls)
              | Some f \<Rightarrow>
                  clonePackagesRepos_loop e targetDir rest
                    (AList.update nm
                       (Dir (case subDir sf of
                               None \<Rightarrow> outDir
                             | Some sd \<Rightarrow> if sd = [] then outDir else path_div outDir sd))
                       res,
                     ign,
                     calls @ [\<lparr>call_fetcher = f, call_repo = repo sf, call_outDir = outDir,
                               call_depth = depth sf, call_refSpec = refSpec sf\<rparr>]))
         | OtherSpec t \<Rightarrow> clonePackagesRepos_loop e targetDir rest (res, ign @ [lookupRes], calls))"

definition clonePackagesRepos ::
  "env \<Rightarrow> path \<Rightarrow> string list \<Rightarrow> (string, entry) dict \<times> pkg list \<times> fetcher_call list" where
  "clonePackagesRepos e targetDir packagesToClone =
     clonePackagesRepos_loop e targetDir packagesToClone ([], [], [])"

text \<open>
  The loop of \<open>fetch\<close> over the ignored packages: the first one whose kind is not
  \<open>system\<close> raises \<open>NotImplementedError\<close>.
\<close>

fun check_ignored :: "pkg list \<Rightarrow> error option" where
  "check_ignored [] = None"
| "check_ignored (ignoredPackage # rest) =
     (if spec_type (fetcher ignoredPackage) \<noteq> system then Some NotImplementedError
      else check_ignored rest)"

text \<open>
  \<open>fetch\<close> returns the lane as it has become and the fetcher invocations made
  (\<open>installDirs\<close> is a parameter the source never reads; the registry is in the
  environment). When it raises, only the error is returned: the invocations made before
  the \<open>raise\<close> are not reported, and the logs below cover the calls that returned.
\<close>

definition fetch ::
  "env \<Rightarrow> path \<Rightarrow> ResolutionSubRound \<Rightarrow> error + (ResolutionSubRound \<times> fetcher_call list)" where
  "fetch e sourcesDir self =
     (case clonePackagesRepos e sourcesDir (map fst (toFetch self)) of
        (buildDepsInstallDirs, ign, calls) \<Rightarrow>
          (case check_ignored ign of
             Some err \<Rightarrow> Inl err
           | None \<Rightarrow>
               (let ignoredNames = dict_update [] (map (\<lambda>el. (pkg_name el, el)) ign)
                in Inr (self\<lparr>fetched := dict_update (fetched self) buildDepsInstallDirs,
                             toFetch := [],
                             ignored := dict_update (ignored self) ignoredNames\<rparr>,
                        calls))))"

text \<open>
  Two notions to state what \<open>clonePackagesRepos\<close> does with a name: whether it reaches
  the fetcher (its specification is a \<open>SourceFetcher\<close> whose kind has an entry in
  \<open>fetchers\<close>), and the directory then stored for it.
\<close>

definition fetchable :: "env \<Rightarrow> string \<Rightarrow> bool" where
  "fetchable e nm =
     (case fetcher (registry_lookup e nm) of
        SourceFetcherSpec sf \<Rightarrow> fetchers e (fetcher_type sf) \<noteq> None
      | OtherSpec t \<Rightarrow> False)"

definition source_dir :: "env \<Rightarrow> path \<Rightarrow> string \<Rightarrow> path" where
  "source_dir e targetDir nm =
     (case fetcher (registry_lookup e nm) of
        SourceFetcherSpec sf \<Rightarrow>
          (case subDir sf of
             None \<Rightarrow> path_div targetDir nm
           | Some sd \<Rightarrow> if sd = [] then path_div targetDir nm
                        else path_div (path_div targetDir nm) sd)
      | OtherSpec t \<Rightarrow> path_div targetDir nm)"

subsubsection \<open>\<open>isAlreadyBeingProcessed\<close> and \<open>stageToCollection\<close>\<close>

definition STAGE_TO_COLLECTION ::
  "(ResolutionSubRoundPipelineStage \<times> (ResolutionSubRound \<Rightarrow> (string, entry) dict)) list" where
  "STAGE_TO_COLLECTION = [(stage_fetched, fetched), (depsResolved, resolved)]"

fun isAlreadyBeingProcessed_loop ::
  "(ResolutionSubRoundPipelineStage \<times> (ResolutionSubRound \<Rightarrow> (string, entry) dict)) list
     \<Rightarrow> ResolutionSubRound \<Rightarrow> string \<Rightarrow> ResolutionSubRoundPipelineStage" where
  "isAlreadyBeingProcessed_loop [] self el = notResolved"
| "isAlreadyBeingProcessed_loop ((stage, collectionGetter) # rest) self el =
     (case map_of (collectionGetter self) el of
        Some isAlreadyFetched \<Rightarrow>
          if entry_truthy isAlreadyFetched then stage
          else isAlreadyBeingProcessed_loop rest self el
      | None \<Rightarrow> isAlreadyBeingProcessed_loop rest self el)"

definition isAlreadyBeingProcessed ::
  "ResolutionSubRound \<Rightarrow> string \<Rightarrow> ResolutionSubRoundPipelineStage" where
  "isAlreadyBeingProcessed self el = isAlreadyBeingProcessed_loop STAGE_TO_COLLECTION self el"

text \<open>
  \<open>stageToCollection\<close> returns a reference to a dictionary of the lane; a statement
  through that reference changes the lane. \<open>stageToCollection_apply stage f lane\<close> is the
  lane after \<open>f\<close> has been applied to that dictionary. The table has the two stages
  \<open>isAlreadyBeingProcessed\<close> can return besides \<open>notResolved\<close>, and the code asks only
  for a truthy stage it got from there (lemma \<open>isAlreadyBeingProcessed_range\<close>), so the
  \<open>KeyError\<close> of the other stages is never raised; there the lane is left as it is.
\<close>

fun stageToCollection_apply ::
  "ResolutionSubRoundPipelineStage \<Rightarrow> ((string, entry) dict \<Rightarrow> (string, entry) dict)
     \<Rightarrow> ResolutionSubRound \<Rightarrow> ResolutionSubRound" where
  "stageToCollection_apply stage_fetched f lane = lane\<lparr>fetched := f (fetched lane)\<rparr>"
| "stageToCollection_apply depsResolved f lane = lane\<lparr>resolved := f (resolved lane)\<rparr>"
| "stageToCollection_apply _ f lane = lane"

subsubsection \<open>\<open>appendNewDeps\<close>\<close>

text \<open>
  The body of the loop over \<open>otherSubRounds\<close> for one other lane. Lines 217 and 218
  bind \<open>otherRoundCollection\<close> and \<open>thisRoundCollection\<close> to the same dictionary, the one
  of \<open>otherSubRound\<close>: the assignment and the deletion both act on it, and no
  dictionary of \<open>self\<close> is touched.
\<close>

definition otherSubRound_body :: "bool \<Rightarrow> string \<Rightarrow> ResolutionSubRound \<Rightarrow> ResolutionSubRound" where
  "otherSubRound_body selfMoveToThis el otherSubRound =
     (let otherRoundStage = isAlreadyBeingProcessed otherSubRound el in
      if stage_truthy otherRoundStage then
        (if selfMoveToThis then
           (let after_assign = stageToCollection_apply otherRoundStage (AList.update el One) otherSubRound;
                after_del = stageToCollection_apply otherRoundStage (AList.delete el) after_assign
            in after_del)
         else otherSubRound)
      else otherSubRound)"

text \<open>
  \<open>appendNewDeps\<close> returns the three groups of objects it may change: \<open>self\<close>, the other
  lanes and the successor lane. The \<open>continue\<close> of line 223 belongs to the loop over
  \<open>otherSubRounds\<close>, so after that loop the requirement goes on to the check of the
  lane's own stage whatever the other lanes held.
\<close>

fun appendNewDeps ::
  "env \<Rightarrow> ResolutionSubRound \<Rightarrow> ResolutionPrefs \<Rightarrow> Requirement list \<Rightarrow> ResolutionSubRound list
     \<Rightarrow> ResolutionSubRound
     \<Rightarrow> ResolutionSubRound \<times> ResolutionSubRound list \<times> ResolutionSubRound" where
  "appendNewDeps e self prefs [] otherSubRounds successor = (self, otherSubRounds, successor)"
| "appendNewDeps e self prefs (el # rest) otherSubRounds successor =
     (if dict_contains (req_name el) (ignored self) then
        appendNewDeps e self prefs rest otherSubRounds successor
      else if \<not> isReInstallationNeeded e el prefs then
        appendNewDeps e self prefs rest otherSubRounds successor
      else
        (let nm = req_name el;
             otherSubRounds' = map (otherSubRound_body (moveToThis self) nm) otherSubRounds;
             currentRoundStage = isAlreadyBeingProcessed self nm
         in if stage_truthy currentRoundStage then
              appendNewDeps e self prefs rest otherSubRounds' successor
            else
              appendNewDeps e self prefs rest otherSubRounds'
                (successor\<lparr>toFetch := AList.update nm One (toFetch successor)\<rparr>)))"

subsubsection \<open>\<open>buildAndInstallWheel\<close> of a lane\<close>

text \<open>
  The external \<open>buildAndInstallWheel(installDirs[t])\<close> is recorded by the value it is
  called with; a name missing from \<open>installDirs\<close> raises \<open>KeyError\<close>.
\<close>

fun buildAndInstallWheel_loop ::
  "(string, entry) dict \<Rightarrow> string list \<Rightarrow> entry list \<Rightarrow> error + entry list" where
  "buildAndInstallWheel_loop installDirs [] done_list = Inr done_list"
| "buildAndInstallWheel_loop installDirs (t # rest) done_list =
     (case map_of installDirs t of
        None \<Rightarrow> Inl KeyError
      | Some d \<Rightarrow> buildAndInstallWheel_loop installDirs rest (done_list @ [d]))"

definition subround_buildAndInstallWheel ::
  "(string, entry) dict \<Rightarrow> ResolutionSubRound \<Rightarrow> entry list \<Rightarrow> error + entry list" where
  "subround_buildAndInstallWheel installDirs self done_list =
     (if resolved self \<noteq> [] then
        buildAndInstallWheel_loop installDirs (map fst (resolved self)) done_list
      else Inr done_list)"

subsection \<open>\<open>ResolutionRound\<close>\<close>

record ResolutionRound =
  build :: ResolutionSubRound
  pkgs :: ResolutionSubRound

text \<open>
  \<open>self.subRounds\<close> is a dictionary with the keys \<open>build\<close> and \<open>pkgs\<close>, in this order.
  The constructor gives both lanes the index \<open>build\<close> (line 239).
\<close>

definition subRounds_keys :: "ResolutionRoundSubRound list" where
  "subRounds_keys = [Build, Pkgs]"

fun subRounds :: "ResolutionRound \<Rightarrow> ResolutionRoundSubRound \<Rightarrow> ResolutionSubRound" where
  "subRounds r Build = build r"
| "subRounds r Pkgs = pkgs r"

fun subRounds_put ::
  "ResolutionRoundSubRound \<Rightarrow> ResolutionSubRound \<Rightarrow> ResolutionRound \<Rightarrow> ResolutionRound" where
  "subRounds_put Build lane r = r\<lparr>build := lane\<rparr>"
| "subRounds_put Pkgs lane r = r\<lparr>pkgs := lane\<rparr>"

definition new_ResolutionRound :: ResolutionRound where
  "new_ResolutionRound =
     \<lparr>build = new_ResolutionSubRound Build ''build tool'' (\<lambda>prefs md. buildDeps md) True
        \<lparr>patch_upgrade = None, patch_resolveDeps = None, patch_forceReinstall = Some False\<rparr>,
      pkgs = new_ResolutionSubRound Build ''package''
        (\<lambda>prefs md. if resolveDeps prefs \<and> deps md \<noteq> [] then deps md else []) False
        \<lparr>patch_upgrade = None, patch_resolveDeps = None, patch_forceReinstall = None\<rparr>\<rparr>"

definition round_bool :: "ResolutionRound \<Rightarrow> bool" where
  "round_bool self = (subround_bool (build self) \<or> subround_bool (pkgs self))"

text \<open>\<open>thisOtherSubRounds\<close>: the keys of the lanes other than \<open>thisSubRoundIdx\<close>.\<close>

definition otherSubRoundIdxs :: "ResolutionRoundSubRound \<Rightarrow> ResolutionRoundSubRound list" where
  "otherSubRoundIdxs thisSubRoundIdx = filter (\<lambda>k. k \<noteq> thisSubRoundIdx) subRounds_keys"

subsubsection \<open>\<open>_resolveDeps\<close>\<close>

text \<open>
  The objects \<open>_resolveDeps\<close> works on: the round itself, its successor, and the
  function's local variable \<open>successorSubRound\<close> (the key of the successor lane it is
  bound to, \<open>None\<close> while it is unbound). The variable is bound by the loop over
  \<open>subroundSuccessorPrefs\<close> and read after that loop, on line 290.
\<close>

record resolve_state =
  this_round :: ResolutionRound
  successor_round :: ResolutionRound
  successorSubRound :: "ResolutionRoundSubRound option"

text \<open>
  The loop of lines 282 to 288 for one fetched \<open>name\<close> of the lane \<open>thisIdx\<close>, over
  the keys of \<open>subroundSuccessorPrefs\<close>. The dependencies are read with \<open>prefs\<close>, the
  lane \<open>thisSubRound\<close> appends them with the patched preferences of the lane whose
  dependency kind they are, into that lane of the successor.
\<close>

fun subroundSuccessorPrefs_loop ::
  "env \<Rightarrow> ResolutionPrefs \<Rightarrow> ResolutionRoundSubRound \<Rightarrow> string \<Rightarrow> entry \<Rightarrow> PackageMetadata
     \<Rightarrow> ResolutionRoundSubRound list \<Rightarrow> resolve_state \<Rightarrow> resolve_state" where
  "subroundSuccessorPrefs_loop e prefs thisIdx nm installDir md [] st = st"
| "subroundSuccessorPrefs_loop e prefs thisIdx nm installDir md (depIdx # rest) st =
     (let subRoundForDepsExtr = subRounds (this_round st) depIdx;
          thisSubRoundPrefs = clone_patch prefs (prefsPatch subRoundForDepsExtr);
          ds = map (unpinRequirement e) (depsGetter subRoundForDepsExtr prefs md);
          others = otherSubRoundIdxs thisIdx
      in case appendNewDeps e (subRounds (this_round st) thisIdx) thisSubRoundPrefs ds
                (map (subRounds (this_round st)) others) (subRounds (successor_round st) depIdx) of
           (self', others', successor') \<Rightarrow>
             (let r1 = subRounds_put thisIdx self' (this_round st);
                  r2 = fold (\<lambda>kv r. subRounds_put (fst kv) (snd kv) r) (zip others others') r1;
                  this' = subRounds r2 thisIdx;
                  r3 = subRounds_put thisIdx
                         (this'\<lparr>resolved := AList.update nm installDir (resolved this')\<rparr>) r2
              in subroundSuccessorPrefs_loop e prefs thisIdx nm installDir md rest
                   \<lparr>this_round = r3,
                    successor_round = subRounds_put depIdx successor' (successor_round st),
                    successorSubRound = Some depIdx\<rparr>))"

text \<open>
  The loop of lines 277 to 290 over the items of \<open>thisSubRound.fetched\<close> (no statement
  of the loop changes that dictionary of the lane being walked: \<open>appendNewDeps\<close> changes
  only the other lanes and the successor). Line 290 is inside this loop and reads the
  variable \<open>successorSubRound\<close>: unbound, it raises \<open>UnboundLocalError\<close>.
\<close>

fun fetched_items_loop ::
  "env \<Rightarrow> ResolutionPrefs \<Rightarrow> ResolutionRoundSubRound \<Rightarrow> (string \<times> entry) list
     \<Rightarrow> resolve_state \<Rightarrow> error + resolve_state" where
  "fetched_items_loop e prefs thisIdx [] st = Inr st"
| "fetched_items_loop e prefs thisIdx ((nm, installDir) # rest) st =
     (let st1 =
            (if \<not> dict_contains nm (ignored (subRounds (this_round st) thisIdx)) then
               subroundSuccessorPrefs_loop e prefs thisIdx nm installDir
                 (extractMetadata e installDir) subRounds_keys st
             else st)
      in case successorSubRound st1 of
           None \<Rightarrow> Inl UnboundLocalError
         | Some sIdx \<Rightarrow>
             (let target = subRounds (successor_round st1) sIdx;
                  target' = target\<lparr>resolved :=
                              dict_update (resolved target)
                                (resolved (subRounds (this_round st1) thisIdx))\<rparr>
              in fetched_items_loop e prefs thisIdx rest
                   (st1\<lparr>successor_round := subRounds_put sIdx target' (successor_round st1)\<rparr>)))"

fun thisOtherSubRounds_loop ::
  "env \<Rightarrow> ResolutionPrefs \<Rightarrow> ResolutionRoundSubRound list \<Rightarrow> resolve_state
     \<Rightarrow> error + resolve_state" where
  "thisOtherSubRounds_loop e prefs [] st = Inr st"
| "thisOtherSubRounds_loop e prefs (thisIdx # rest) st =
     (case fetched_items_loop e prefs thisIdx (fetched (subRounds (this_round st) thisIdx)) st of
        Inl err \<Rightarrow> Inl err
      | Inr st' \<Rightarrow> thisOtherSubRounds_loop e prefs rest st')"

definition resolveDeps ::
  "env \<Rightarrow> ResolutionPrefs \<Rightarrow> ResolutionRound \<Rightarrow> ResolutionRound
     \<Rightarrow> error + (ResolutionRound \<times> ResolutionRound)" where
  "resolveDeps e prefs self successor =
     (case thisOtherSubRounds_loop e prefs subRounds_keys
             \<lparr>this_round = self, successor_round = successor, successorSubRound = None\<rparr> of
        Inl err \<Rightarrow> Inl err
      | Inr st \<Rightarrow> Inr (this_round st, successor_round st))"

subsubsection \<open>\<open>ResolutionRound.__call__\<close>\<close>

text \<open>
  The result of a call: the next round, \<open>installDirs\<close> as updated, the round called as
  the call leaves it, and the fetcher invocations made.
\<close>

record round_result =
  nextRound :: ResolutionRound
  installDirs_after :: "(string, entry) dict"
  self_after :: ResolutionRound
  fetcher_calls :: "fetcher_call list"

definition round_call ::
  "env \<Rightarrow> ResolutionPrefs \<Rightarrow> (string, entry) dict \<Rightarrow> path \<Rightarrow> ResolutionRound
     \<Rightarrow> error + round_result" where
  "round_call e prefs installDirs sourcesDir self =
     (case fetch e sourcesDir (build self) of
        Inl err \<Rightarrow> Inl err
      | Inr (build', calls1) \<Rightarrow>
          (case fetch e sourcesDir (pkgs self) of
             Inl err \<Rightarrow> Inl err
           | Inr (pkgs', calls2) \<Rightarrow>
               (case resolveDeps e prefs (self\<lparr>build := build', pkgs := pkgs'\<rparr>) new_ResolutionRound of
                  Inl err \<Rightarrow> Inl err
                | Inr (self', next') \<Rightarrow>
                    Inr \<lparr>nextRound = next',
                         installDirs_after =
                           dict_update (dict_update installDirs (fetched (build self')))
                             (fetched (pkgs self')),
                         self_after = self',
                         fetcher_calls = calls1 @ calls2\<rparr>)))"

definition round_buildAndInstallWheel ::
  "(string, entry) dict \<Rightarrow> ResolutionRound \<Rightarrow> error + entry list" where
  "round_buildAndInstallWheel installDirs self =
     (case subround_buildAndInstallWheel installDirs (build self) [] of
        Inl err \<Rightarrow> Inl err
      | Inr done_list \<Rightarrow> subround_buildAndInstallWheel installDirs (pkgs self) done_list)"

subsection \<open>\<open>PackagesInstaller\<close>\<close>

record TemporaryDirectory =
  tmpdir_name :: string
  cleaned_up :: bool

text \<open>
  The installer's fields, and what a run leaves behind for an observer: the rounds
  called (each as its call left it), the round the loop ended with, the fetcher
  invocations and the directories built and installed, in order.
\<close>

record PackagesInstaller =
  installDirs :: "(string, entry) dict"
  installer_ignored :: "string list"
  sourcesDir :: "TemporaryDirectory option"
  rounds_called :: "ResolutionRound list"
  last_round :: ResolutionRound
  fetch_log :: "fetcher_call list"
  install_log :: "entry list"

definition installer_reset :: "PackagesInstaller \<Rightarrow> PackagesInstaller" where
  "installer_reset self = self\<lparr>installDirs := [], installer_ignored := [], sourcesDir := None\<rparr>"

text \<open>
  The \<open>while rr\<close> loop of \<open>downloadPackagesAndTheirDependencies\<close>, with fuel: \<open>None\<close>
  when the fuel runs out before the round is falsy. An exception leaves the loop with
  the installer as it is.
\<close>

fun while_rr ::
  "nat \<Rightarrow> env \<Rightarrow> ResolutionPrefs \<Rightarrow> path \<Rightarrow> ResolutionRound \<Rightarrow> PackagesInstaller
     \<Rightarrow> (error option \<times> ResolutionRound \<times> PackagesInstaller) option" where
  "while_rr 0 e prefs sd rr self = (if round_bool rr then None else Some (None, rr, self))"
| "while_rr (Suc n) e prefs sd rr self =
     (if round_bool rr then
        (case round_call e (clone prefs (Some False) None None) (installDirs self) sd rr of
           Inl err \<Rightarrow> Some (Some err, rr, self)
         | Inr res \<Rightarrow>
             while_rr n e prefs sd (nextRound res)
               (self\<lparr>installDirs := installDirs_after res,
                      rounds_called := rounds_called self @ [self_after res],
                      fetch_log := fetch_log self @ fetcher_calls res\<rparr>))
      else Some (None, rr, self))"

definition sourcesDir_path :: "PackagesInstaller \<Rightarrow> path" where
  "sourcesDir_path self = (case sourcesDir self of None \<Rightarrow> [] | Some d \<Rightarrow> [tmpdir_name d])"

definition downloadPackagesAndTheirDependencies ::
  "nat \<Rightarrow> env \<Rightarrow> ResolutionPrefs \<Rightarrow> string list \<Rightarrow> PackagesInstaller
     \<Rightarrow> (error option \<times> PackagesInstaller) option" where
  "downloadPackagesAndTheirDependencies fuel e prefs names self =
     (let rr0 = new_ResolutionRound;
          seed = dict_update [] (map (\<lambda>el. (canonicalizedRequirement_name e el, One)) names);
          rr = rr0\<lparr>pkgs := (pkgs rr0)\<lparr>toFetch := dict_update (toFetch (pkgs rr0)) seed\<rparr>\<rparr>
      in case while_rr fuel e prefs (sourcesDir_path self) rr self of
           None \<Rightarrow> None
         | Some (Some err, rr', self') \<Rightarrow> Some (Some err, self'\<lparr>last_round := rr'\<rparr>)
         | Some (None, rr', self') \<Rightarrow>
             (case round_buildAndInstallWheel (installDirs self') rr' of
                Inl err \<Rightarrow> Some (Some err, self'\<lparr>last_round := rr'\<rparr>)
              | Inr done_list \<Rightarrow>
                  Some (None, self'\<lparr>last_round := rr', install_log := done_list\<rparr>)))"

text \<open>
  \<open>PackagesInstaller.__call__\<close>: \<open>cleanup()\<close> is the statement after the call of
  \<open>downloadPackagesAndTheirDependencies\<close>, so an exception raised there leaves
  \<open>__call__\<close> before it.
\<close>

definition installer_call ::
  "nat \<Rightarrow> env \<Rightarrow> ResolutionPrefs \<Rightarrow> string list \<Rightarrow> PackagesInstaller
     \<Rightarrow> (error option \<times> PackagesInstaller) option" where
  "installer_call fuel e prefs names self0 =
     (let self1 = installer_reset self0;
          self2 = self1\<lparr>sourcesDir := Some \<lparr>tmpdir_name = ''install_'' @ tmp_name e, cleaned_up = False\<rparr>\<rparr>
      in case downloadPackagesAndTheirDependencies fuel e prefs names self2 of
           None \<Rightarrow> None
         | Some (Some err, self3) \<Rightarrow> Some (Some err, self3)
         | Some (None, self3) \<Rightarrow>
             Some (None, self3\<lparr>sourcesDir := map_option (\<lambda>d. d\<lparr>cleaned_up := True\<rparr>) (sourcesDir self3)\<rparr>))"

definition new_PackagesInstaller :: PackagesInstaller where
  "new_PackagesInstaller =
     \<lparr>installDirs = [], installer_ignored = [], sourcesDir = None, rounds_called = [],
      last_round = new_ResolutionRound, fetch_log = [], install_log = []\<rparr>"

section \<open>\<open>tools/distlib.py\<close>\<close>

text \<open>
  \<open>canonicalizePackageNameMulti\<close> (the dash and the underscore form of a name) and the
  distribution database \<open>dp.get_distribution\<close> are parameters. A distribution found is
  truthy; \<open>None\<close> is not.
\<close>

definition getInstalledPackageDistribution ::
  "(string \<Rightarrow> string \<times> string) \<Rightarrow> (string \<Rightarrow> 'd option) \<Rightarrow> string \<Rightarrow> error + 'd option" where
  "getInstalledPackageDistribution canonicalizePackageNameMulti get_distribution nm =
     (let (dashName, underscoreName) = canonicalizePackageNameMulti nm in
      if dashName \<noteq> underscoreName then
        (let dDist = get_distribution dashName;
             uDist = get_distribution underscoreName in
         if dDist \<noteq> None \<and> uDist \<noteq> None then Inl RuntimeError
         else Inr (if dDist \<noteq> None then dDist else uDist))
      else Inr (get_distribution dashName))"

section \<open>Notions for the invariant of a round\<close>

text \<open>
  The names a round holds as resolved, in either lane; a lane that has only lost keys
  of \<open>fetched\<close> and \<open>resolved\<close> and kept \<open>moveToThis\<close>; and what a part of
  \<open>_resolveDeps\<close> working on the lane \<open>t\<close> may do to the round and its successor when it
  resolves the names \<open>N\<close>: the lane's \<open>fetched\<close> stays, its \<open>resolved\<close> gains at most \<open>N\<close>,
  the other lane only loses keys (and stays as it is when the lane's \<open>moveToThis\<close> is
  false), and the successor's \<open>resolved\<close> gains at most what the lane had resolved and
  \<open>N\<close>.
\<close>

definition lane_le :: "ResolutionSubRound \<Rightarrow> ResolutionSubRound \<Rightarrow> bool" where
  "lane_le lane' lane \<longleftrightarrow>
     fst ` set (fetched lane') \<subseteq> fst ` set (fetched lane) \<and>
     fst ` set (resolved lane') \<subseteq> fst ` set (resolved lane) \<and>
     moveToThis lane' = moveToThis lane"

definition resolved_names :: "ResolutionRound \<Rightarrow> string set" where
  "resolved_names r = fst ` set (resolved (build r)) \<union> fst ` set (resolved (pkgs r))"

definition rs_step ::
  "ResolutionRoundSubRound \<Rightarrow> string set \<Rightarrow> resolve_state \<Rightarrow> resolve_state \<Rightarrow> bool" where
  "rs_step t N st st' \<longleftrightarrow>
     fetched (subRounds (this_round st') t) = fetched (subRounds (this_round st) t) \<and>
     fst ` set (resolved (subRounds (this_round st') t))
       \<subseteq> fst ` set (resolved (subRounds (this_round st) t)) \<union> N \<and>
     (\<forall>k. k \<noteq> t \<longrightarrow> lane_le (subRounds (this_round st') k) (subRounds (this_round st) k)) \<and>
     (\<not> moveToThis (subRounds (this_round st) t) \<longrightarrow>
        (\<forall>k. k \<noteq> t \<longrightarrow> subRounds (this_round st') k = subRounds (this_round st) k)) \<and>
     (\<forall>k. moveToThis (subRounds (this_round st') k) = moveToThis (subRounds (this_round st) k)) \<and>
     (\<forall>k. moveToThis (subRounds (successor_round st') k)
            = moveToThis (subRounds (successor_round st) k)) \<and>
     (\<forall>k. fst ` set (resolved (subRounds (successor_round st') k))
            \<subseteq> fst ` set (resolved (subRounds (successor_round st) k))
              \<union> fst ` set (resolved (subRounds (this_round st) t)) \<union> N)"

section \<open>Example inputs\<close>

text \<open>
  The second scenario of the specification's testable properties: \<open>A\<close> is requested;
  \<open>A\<close> has the build dependency \<open>B\<close> and the dependency \<open>C\<close>; \<open>C\<close> has the build
  dependency \<open>B\<close>. Every package is fetched with git, nothing is installed yet.
\<close>

definition example_req :: "string \<Rightarrow> Requirement" where
  "example_req n = \<lparr>req_name = n, specifier = [], marker = None\<rparr>"

definition git_pkg :: "string \<Rightarrow> pkg" where
  "git_pkg n =
     \<lparr>pkg_name = n,
      fetcher = SourceFetcherSpec
        \<lparr>fetcher_type = git, repo = ''https://example.org/'' @ n, refSpec = None,
         depth = None, subDir = None\<rparr>\<rparr>"

definition scenario_metadata :: "entry \<Rightarrow> PackageMetadata" where
  "scenario_metadata d =
     (if d = Dir [''install_t'', ''A''] then
        \<lparr>md_name = ''A'', deps = [example_req ''C''], buildDeps = [example_req ''B'']\<rparr>
      else if d = Dir [''install_t'', ''C''] then
        \<lparr>md_name = ''C'', deps = [], buildDeps = [example_req ''B'']\<rparr>
      else \<lparr>md_name = ''B'', deps = [], buildDeps = []\<rparr>)"

definition scenario_env :: env where
  "scenario_env =
     \<lparr>registry_lookup = git_pkg,
      fetchers = (\<lambda>s. if s = git then Some ''git'' else None),
      extractMetadata = scenario_metadata,
      getInstalledPackageVersion = (\<lambda>n. None),
      satisfies = (\<lambda>sp v. sp = [] \<or> sp = ''=='' @ v),
      filterSpecifiers = None,
      canonicalizedRequirement_name = (\<lambda>n. n),
      tmp_name = ''t''\<rparr>"

definition default_prefs :: ResolutionPrefs where
  "default_prefs = \<lparr>upgrade = False, resolveDeps = True, forceReinstall = False\<rparr>"

text \<open>The same environment with version 1.0 of \<open>B\<close> installed.\<close>

definition installed_env :: env where
  "installed_env =
     scenario_env\<lparr>getInstalledPackageVersion := (\<lambda>n. if n = ''B'' then Some ''1.0'' else None)\<rparr>"

text \<open>
  A registry whose packages are of a kind no fetcher is registered for, and one that
  also knows a system package \<open>E\<close>.
\<close>

definition hg_pkg :: "string \<Rightarrow> pkg" where
  "hg_pkg n =
     \<lparr>pkg_name = n,
      fetcher = SourceFetcherSpec
        \<lparr>fetcher_type = unlisted ''hg'', repo = ''https://example.org/'' @ n, refSpec = None,
         depth = None, subDir = None\<rparr>\<rparr>"

definition system_pkg :: "string \<Rightarrow> pkg" where
  "system_pkg n = \<lparr>pkg_name = n, fetcher = OtherSpec system\<rparr>"

definition hg_env :: env where
  "hg_env = scenario_env\<lparr>registry_lookup := hg_pkg\<rparr>"

definition system_env :: env where
  "system_env =
     scenario_env\<lparr>registry_lookup := (\<lambda>n. if n = ''E'' then system_pkg n else git_pkg n)\<rparr>"

text \<open>
  A registry that returns the system package \<open>E\<close> under another name, and an
  environment where a fetcher is registered for the system kind and \<open>E\<close> is a
  \<open>SourceFetcher\<close> of that kind.
\<close>

definition renamed_pkg :: pkg where
  "renamed_pkg = \<lparr>pkg_name = ''e-sys'', fetcher = OtherSpec system\<rparr>"

definition renaming_env :: env where
  "renaming_env =
     scenario_env\<lparr>registry_lookup := (\<lambda>n. if n = ''E'' then renamed_pkg else git_pkg n)\<rparr>"

definition system_source_pkg :: "string \<Rightarrow> pkg" where
  "system_source_pkg n =
     \<lparr>pkg_name = n,
      fetcher = SourceFetcherSpec
        \<lparr>fetcher_type = system, repo = n, refSpec = None, depth = None, subDir = None\<rparr>\<rparr>"

definition system_fetcher_env :: env where
  "system_fetcher_env =
     scenario_env
       \<lparr>registry_lookup := (\<lambda>n. if n = ''E'' then system_source_pkg n else git_pkg n),
        fetchers := (\<lambda>s. if s = git then Some ''git''
                          else if s = system then Some ''system'' else None)\<rparr>"

text \<open>Dash and underscore forms of a name, and two install databases.\<close>

definition example_canonicalize :: "string \<Rightarrow> string \<times> string" where
  "example_canonicalize nm =
     (map (\<lambda>c. if c = CHR ''_'' then CHR ''-'' else c) nm,
      map (\<lambda>c. if c = CHR ''-'' then CHR ''_'' else c) nm)"

definition both_installed :: "string \<Rightarrow> nat option" where
  "both_installed nm = (if nm = ''foo-bar'' then Some 1 else if nm = ''foo_bar'' then Some 2 else None)"

definition underscore_installed :: "string \<Rightarrow> nat option" where
  "underscore_installed nm = (if nm = ''foo_bar'' then Some 2 else None)"

section \<open>Properties\<close>

subsection \<open>Stages\<close>

lemma isAlreadyBeingProcessed_range:
  "isAlreadyBeingProcessed self el = notResolved \<or>
   isAlreadyBeingProcessed self el = stage_fetched \<or>
   isAlreadyBeingProcessed self el = depsResolved"
  by (simp add: isAlreadyBeingProcessed_def STAGE_TO_COLLECTION_def split: option.split)

subsection \<open>Reinstallation and installed distributions\<close>

text \<open>
  C4. \<open>isReInstallationNeeded\<close> is false for a requirement with an environment marker;
  otherwise it is true when nothing is installed; with a version installed and
  \<open>upgrade\<close> off it is true under \<open>forceReinstall\<close>, false when the installed version
  satisfies the specifier and true when it does not; with a version installed and
  \<open>upgrade\<close> on it is true.
\<close>

theorem isReInstallationNeeded_cases:
  "(marker el \<noteq> None \<longrightarrow> \<not> isReInstallationNeeded e el prefs) \<and>
   (marker el = None \<and> getInstalledPackageVersion e (req_name el) = None
      \<longrightarrow> isReInstallationNeeded e el prefs) \<and>
   (marker el = None \<and> getInstalledPackageVersion e (req_name el) = Some ver \<and> \<not> upgrade prefs
      \<and> forceReinstall prefs \<longrightarrow> isReInstallationNeeded e el prefs) \<and>
   (marker el = None \<and> getInstalledPackageVersion e (req_name el) = Some ver \<and> \<not> upgrade prefs
      \<and> \<not> forceReinstall prefs \<and> satisfies e (specifier el) ver
      \<longrightarrow> \<not> isReInstallationNeeded e el prefs) \<and>
   (marker el = None \<and> getInstalledPackageVersion e (req_name el) = Some ver \<and> \<not> upgrade prefs
      \<and> \<not> forceReinstall prefs \<and> \<not> satisfies e (specifier el) ver
      \<longrightarrow> isReInstallationNeeded e el prefs) \<and>
   (marker el = None \<and> getInstalledPackageVersion e (req_name el) = Some ver \<and> upgrade prefs
      \<longrightarrow> isReInstallationNeeded e el prefs)"
  by (simp add: isReInstallationNeeded_def specifier_filter_def)

theorem isReInstallationNeeded_cases_witness:
  "\<not> isReInstallationNeeded scenario_env ((example_req ''B'')\<lparr>marker := Some ''os_name == nt''\<rparr>) default_prefs \<and>
   isReInstallationNeeded scenario_env (example_req ''B'') default_prefs \<and>
   isReInstallationNeeded installed_env (example_req ''B'') (default_prefs\<lparr>forceReinstall := True\<rparr>) \<and>
   \<not> isReInstallationNeeded installed_env (example_req ''B'') default_prefs \<and>
   isReInstallationNeeded installed_env ((example_req ''B'')\<lparr>specifier := ''==2.0''\<rparr>) default_prefs \<and>
   isReInstallationNeeded installed_env (example_req ''B'') (default_prefs\<lparr>upgrade := True\<rparr>)"
  using
    isReInstallationNeeded_cases [of "(example_req ''B'')\<lparr>marker := Some ''os_name == nt''\<rparr>"
      scenario_env default_prefs "''1.0''"]
    isReInstallationNeeded_cases [of "example_req ''B''" scenario_env default_prefs "''1.0''"]
    isReInstallationNeeded_cases [of "example_req ''B''" installed_env
      "default_prefs\<lparr>forceReinstall := True\<rparr>" "''1.0''"]
    isReInstallationNeeded_cases [of "example_req ''B''" installed_env default_prefs "''1.0''"]
    isReInstallationNeeded_cases [of "(example_req ''B'')\<lparr>specifier := ''==2.0''\<rparr>" installed_env
      default_prefs "''1.0''"]
    isReInstallationNeeded_cases [of "example_req ''B''" installed_env
      "default_prefs\<lparr>upgrade := True\<rparr>" "''1.0''"]
  by (simp add: example_req_def scenario_env_def installed_env_def default_prefs_def)

text \<open>
  C8. When the dash form and the underscore form of a name differ: with both found
  installed the lookup raises (\<open>RuntimeError\<close>, refusing to guess) and returns neither;
  with at most one found it returns that one, or none.
\<close>

theorem getInstalledPackageDistribution_conflict:
  assumes "canonicalizePackageNameMulti nm = (dashName, underscoreName)"
    and "dashName \<noteq> underscoreName"
  shows "(get_distribution dashName \<noteq> None \<and> get_distribution underscoreName \<noteq> None \<longrightarrow>
            getInstalledPackageDistribution canonicalizePackageNameMulti get_distribution nm
              = Inl RuntimeError) \<and>
         (get_distribution underscoreName = None \<longrightarrow>
            getInstalledPackageDistribution canonicalizePackageNameMulti get_distribution nm
              = Inr (get_distribution dashName)) \<and>
         (get_distribution dashName = None \<longrightarrow>
            getInstalledPackageDistribution canonicalizePackageNameMulti get_distribution nm
              = Inr (get_distribution underscoreName))"
  using assms by (auto simp: getInstalledPackageDistribution_def Let_def)

theorem getInstalledPackageDistribution_conflict_witness:
  "getInstalledPackageDistribution example_canonicalize both_installed ''foo-bar'' = Inl RuntimeError \<and>
   getInstalledPackageDistribution example_canonicalize underscore_installed ''foo-bar'' = Inr (Some 2)"
proof -
  have c: "example_canonicalize ''foo-bar'' = (''foo-bar'', ''foo_bar'')"
    by (simp add: example_canonicalize_def)
  have d: "''foo-bar'' \<noteq> ''foo_bar''"
    by simp
  show ?thesis
    using getInstalledPackageDistribution_conflict
        [of example_canonicalize "''foo-bar''" "''foo-bar''" "''foo_bar''" both_installed, OF c d]
      getInstalledPackageDistribution_conflict
        [of example_canonicalize "''foo-bar''" "''foo-bar''" "''foo_bar''" underscore_installed, OF c d]
    by (simp add: both_installed_def underscore_installed_def)
qed

subsection \<open>Runs of the code on the specification's scenarios\<close>

text \<open>
  C1. What the code does where the specification asks for a relocation. The
  build-tool lane (\<open>moveToThis\<close> true) holds the fetched \<open>B\<close> and appends \<open>B\<close>'s
  dependency \<open>C\<close>, which the package lane of the same round holds as fetched (the
  second round of a request for \<open>A\<close>, where \<open>A\<close> has the build dependency \<open>B\<close> and the
  dependency \<open>C\<close>, and \<open>B\<close> has the dependency \<open>C\<close>). After the call \<open>C\<close> is gone from
  the package lane's \<open>fetched\<close>, it is not in the build-tool lane's \<open>fetched\<close>, and it
  is scheduled again in the successor's \<open>toFetch\<close>.
\<close>

theorem appendNewDeps_promotion_loses_entry:
  "moveToThis (build new_ResolutionRound) \<and>
   isAlreadyBeingProcessed
     ((pkgs new_ResolutionRound)
        \<lparr>fetched := [(''C'', Dir [''install_t'', ''C''])],
         resolved := [(''A'', Dir [''install_t'', ''A''])]\<rparr>) ''C''
     = stage_fetched \<and>
   (case appendNewDeps scenario_env
           ((build new_ResolutionRound)\<lparr>fetched := [(''B'', Dir [''install_t'', ''B''])]\<rparr>)
           default_prefs [example_req ''C'']
           [(pkgs new_ResolutionRound)
              \<lparr>fetched := [(''C'', Dir [''install_t'', ''C''])],
               resolved := [(''A'', Dir [''install_t'', ''A''])]\<rparr>]
           (pkgs new_ResolutionRound) of
      (self', others', successor') \<Rightarrow>
        (map fst (fetched self'), map (\<lambda>lane. map fst (fetched lane)) others',
         map fst (toFetch successor')))
   = ([''B''], [[]], [''C''])"
  by code_simp

text \<open>
  C2. What the code does where the specification asks for each lane's resolved names
  in the same lane of the next round. The round has \<open>B\<close> to fetch in the build-tool lane and
  \<open>A\<close> resolved in the package lane (the second round of a request for \<open>A\<close> whose only
  dependency is the build dependency \<open>B\<close>). After the call the build-tool lane has \<open>B\<close>
  resolved and the next round's build-tool lane has nothing resolved; the package lane
  still has \<open>A\<close> resolved and the next round's package lane has only \<open>B\<close>.
\<close>

theorem round_call_resolved_not_propagated:
  "map_sum id
     (\<lambda>res. (map fst (resolved (build (self_after res))),
             map fst (resolved (build (nextRound res))),
             map fst (resolved (pkgs (self_after res))),
             map fst (resolved (pkgs (nextRound res)))))
     (round_call scenario_env default_prefs [(''A'', Dir [''install_t'', ''A''])] [''install_t'']
        (new_ResolutionRound
           \<lparr>build := (build new_ResolutionRound)\<lparr>toFetch := [(''B'', One)]\<rparr>,
            pkgs := (pkgs new_ResolutionRound)\<lparr>resolved := [(''A'', Dir [''install_t'', ''A''])]\<rparr>\<rparr>))
   = Inr ([''B''], [], [''A''], [''B''])"
  by code_simp

text \<open>
  C3. What the code does on the specification's own scenario (\<open>A\<close> requested, \<open>A\<close> with
  build dependency \<open>B\<close> and dependency \<open>C\<close>, \<open>C\<close> with build dependency \<open>B\<close>). The run
  ends without an error after three rounds; the fetcher has been invoked for \<open>A\<close>, \<open>B\<close>,
  \<open>C\<close> and then \<open>B\<close> a second time; the round the loop ends with has nothing resolved in
  the build-tool lane and only \<open>B\<close> in the package lane, so \<open>A\<close> and \<open>C\<close> are in no lane's
  resolved collection, and only \<open>B\<close> is built and installed.
\<close>

theorem installer_scenario_fetches_twice:
  "map_option
     (\<lambda>(err, s). (err, length (rounds_called s), map call_outDir (fetch_log s),
                  map fst (resolved (build (last_round s))),
                  map fst (resolved (pkgs (last_round s))),
                  install_log s))
     (installer_call 10 scenario_env default_prefs [''A''] new_PackagesInstaller)
   = Some (None, 3,
           [[''install_t'', ''A''], [''install_t'', ''B''], [''install_t'', ''C''],
            [''install_t'', ''B'']],
           [], [''B''], [Dir [''install_t'', ''B'']])"
  by code_simp

text \<open>
  C7. What the code does where the specification asks for the scratch directory to be
  released on the error path. The registry resolves \<open>A\<close> to a kind without a fetcher that is not
  the system kind: \<open>fetch\<close> raises \<open>NotImplementedError\<close> in the first round, the
  exception leaves \<open>__call__\<close>, and the \<open>TemporaryDirectory\<close> created at the start has not
  been cleaned up.
\<close>

theorem installer_call_error_skips_cleanup:
  "map_option (\<lambda>(err, s). (err, sourcesDir s))
     (installer_call 10 hg_env default_prefs [''A''] new_PackagesInstaller)
   = Some (Some NotImplementedError,
           Some \<lparr>tmpdir_name = ''install_t'', cleaned_up = False\<rparr>)"
  by code_simp

subsection \<open>Dictionaries\<close>

lemma dict_update_keys: "fst ` set (dict_update d other) = fst ` set d \<union> fst ` set other"
  unfolding dict_update_def
  by (induction other arbitrary: d) (auto simp: AList.dom_update)

lemma dict_update_map_of:
  "map_of (dict_update d other) k =
     (case map_of (rev other) k of None \<Rightarrow> map_of d k | Some v \<Rightarrow> Some v)"
  unfolding dict_update_def
proof (induction other arbitrary: d)
  case Nil
  then show ?case by simp
next
  case (Cons kv other)
  show ?case
    by (simp add: Cons.IH AList.update_conv' map_add_def split: option.splits)
qed

lemma map_of_rev_distinct:
  assumes "distinct (map fst xs)"
  shows "map_of (rev xs) k = map_of xs k"
proof (cases "map_of xs k")
  case None
  then have "k \<notin> fst ` set (rev xs)" by (simp add: map_of_eq_None_iff)
  then have "map_of (rev xs) k = None" by (simp only: map_of_eq_None_iff not_False_eq_True)
  with None show ?thesis by simp
next
  case (Some v)
  then have "(k, v) \<in> set (rev xs)" by (auto dest: map_of_SomeD)
  moreover have "distinct (map fst (rev xs))" using assms by (simp add: rev_map[symmetric])
  ultimately have "map_of (rev xs) k = Some v" by (simp only: map_of_eq_Some_iff)
  with Some show ?thesis by simp
qed

lemma dict_update_map_of_distinct:
  "distinct (map fst other) \<Longrightarrow>
   map_of (dict_update d other) k =
     (case map_of other k of None \<Rightarrow> map_of d k | Some v \<Rightarrow> Some v)"
  by (simp add: dict_update_map_of map_of_rev_distinct)

subsection \<open>\<open>fetch\<close>\<close>

lemma clonePackagesRepos_loop_unfetchable:
  "\<not> fetchable e a \<Longrightarrow>
   clonePackagesRepos_loop e t (a # names) (res, ign, calls) =
   clonePackagesRepos_loop e t names (res, ign @ [registry_lookup e a], calls)"
  by (auto simp: fetchable_def Let_def split: fetcherSpec.splits option.splits)

lemma clonePackagesRepos_loop_fetchable:
  "fetchable e a \<Longrightarrow>
   \<exists>c. call_outDir c = path_div t a \<and>
     clonePackagesRepos_loop e t (a # names) (res, ign, calls) =
     clonePackagesRepos_loop e t names
       (AList.update a (Dir (source_dir e t a)) res, ign, calls @ [c])"
proof -
  assume "fetchable e a"
  then obtain sf f where sf: "fetcher (registry_lookup e a) = SourceFetcherSpec sf"
    and f: "fetchers e (fetcher_type sf) = Some f"
    by (auto simp: fetchable_def split: fetcherSpec.splits)
  let ?c = "\<lparr>call_fetcher = f, call_repo = repo sf, call_outDir = path_div t a,
             call_depth = depth sf, call_refSpec = refSpec sf\<rparr>"
  have "clonePackagesRepos_loop e t (a # names) (res, ign, calls) =
        clonePackagesRepos_loop e t names
          (AList.update a (Dir (source_dir e t a)) res, ign, calls @ [?c])"
    using sf f by (simp add: source_dir_def Let_def)
  moreover have "call_outDir ?c = path_div t a"
    by simp
  ultimately show ?thesis
    by blast
qed

lemma clonePackagesRepos_loop_ignored:
  "clonePackagesRepos_loop e t names (res, ign, calls) = (res', ign', calls') \<Longrightarrow>
   ign' = ign @ map (registry_lookup e) (filter (\<lambda>n. \<not> fetchable e n) names)"
proof (induction names arbitrary: res ign calls)
  case Nil
  then show ?case by simp
next
  case (Cons a names)
  show ?case
  proof (cases "fetchable e a")
    case True
    from clonePackagesRepos_loop_fetchable[OF True, of t names res ign calls] Cons.prems
    obtain c where "clonePackagesRepos_loop e t names
        (AList.update a (Dir (source_dir e t a)) res, ign, calls @ [c]) = (res', ign', calls')"
      by auto
    from Cons.IH[OF this] True show ?thesis by simp
  next
    case False
    from clonePackagesRepos_loop_unfetchable[OF False, of t names res ign calls] Cons.prems
    have "clonePackagesRepos_loop e t names (res, ign @ [registry_lookup e a], calls)
            = (res', ign', calls')"
      by simp
    from Cons.IH[OF this] False show ?thesis by simp
  qed
qed

lemma clonePackagesRepos_loop_distinct:
  "clonePackagesRepos_loop e t names (res, ign, calls) = (res', ign', calls') \<Longrightarrow>
   distinct (map fst res) \<Longrightarrow> distinct (map fst res')"
proof (induction names arbitrary: res ign calls)
  case Nil
  then show ?case by simp
next
  case (Cons a names)
  show ?case
  proof (cases "fetchable e a")
    case True
    from clonePackagesRepos_loop_fetchable[OF True, of t names res ign calls] Cons.prems(1)
    obtain c where "clonePackagesRepos_loop e t names
        (AList.update a (Dir (source_dir e t a)) res, ign, calls @ [c]) = (res', ign', calls')"
      by auto
    from Cons.IH[OF this] Cons.prems(2) show ?thesis by (simp add: AList.distinct_update)
  next
    case False
    from clonePackagesRepos_loop_unfetchable[OF False, of t names res ign calls] Cons.prems(1)
    have "clonePackagesRepos_loop e t names (res, ign @ [registry_lookup e a], calls)
            = (res', ign', calls')"
      by simp
    from Cons.IH[OF this] Cons.prems(2) show ?thesis by simp
  qed
qed

lemma clonePackagesRepos_loop_res:
  "clonePackagesRepos_loop e t names (res, ign, calls) = (res', ign', calls') \<Longrightarrow>
   map_of res' n =
     (if n \<in> set names \<and> fetchable e n then Some (Dir (source_dir e t n)) else map_of res n)"
proof (induction names arbitrary: res ign calls)
  case Nil
  then show ?case by simp
next
  case (Cons a names)
  show ?case
  proof (cases "fetchable e a")
    case True
    from clonePackagesRepos_loop_fetchable[OF True, of t names res ign calls] Cons.prems
    obtain c where "clonePackagesRepos_loop e t names
        (AList.update a (Dir (source_dir e t a)) res, ign, calls @ [c]) = (res', ign', calls')"
      by auto
    from Cons.IH[OF this] True show ?thesis by (auto simp: AList.update_conv')
  next
    case False
    from clonePackagesRepos_loop_unfetchable[OF False, of t names res ign calls] Cons.prems
    have "clonePackagesRepos_loop e t names (res, ign @ [registry_lookup e a], calls)
            = (res', ign', calls')"
      by simp
    from Cons.IH[OF this] False show ?thesis by auto
  qed
qed

lemma clonePackagesRepos_loop_calls:
  "clonePackagesRepos_loop e t names (res, ign, calls) = (res', ign', calls') \<Longrightarrow>
   map call_outDir calls' = map call_outDir calls @ map (path_div t) (filter (fetchable e) names)"
proof (induction names arbitrary: res ign calls)
  case Nil
  then show ?case by simp
next
  case (Cons a names)
  show ?case
  proof (cases "fetchable e a")
    case True
    from clonePackagesRepos_loop_fetchable[OF True, of t names res ign calls] Cons.prems
    obtain c where c: "call_outDir c = path_div t a" and "clonePackagesRepos_loop e t names
        (AList.update a (Dir (source_dir e t a)) res, ign, calls @ [c]) = (res', ign', calls')"
      by auto
    from Cons.IH[OF this(2)] True c show ?thesis by simp
  next
    case False
    from clonePackagesRepos_loop_unfetchable[OF False, of t names res ign calls] Cons.prems
    have "clonePackagesRepos_loop e t names (res, ign @ [registry_lookup e a], calls)
            = (res', ign', calls')"
      by simp
    from Cons.IH[OF this] False show ?thesis by simp
  qed
qed

lemma check_ignored_None:
  "check_ignored ps = None \<longleftrightarrow> (\<forall>p \<in> set ps. spec_type (fetcher p) = system)"
  by (induction ps) auto

lemma check_ignored_Some:
  "check_ignored ps = Some err \<Longrightarrow> err = NotImplementedError"
  by (induction ps) (auto split: if_splits)

lemma fetch_Inr_unfold:
  assumes "fetch e srcDir self = Inr (self', calls)"
  obtains res ign where
    "clonePackagesRepos_loop e srcDir (map fst (toFetch self)) ([], [], []) = (res, ign, calls)"
    "check_ignored ign = None"
    "self' = self\<lparr>fetched := dict_update (fetched self) res, toFetch := [],
                    ignored := dict_update (ignored self)
                                 (dict_update [] (map (\<lambda>el. (pkg_name el, el)) ign))\<rparr>"
  using assms
  by (auto simp: fetch_def clonePackagesRepos_def Let_def split: prod.splits option.splits)

lemma path_div_inject: "path_div t a = path_div t b \<longleftrightarrow> a = b"
  by (simp add: path_div_def)

text \<open>
  C5. When \<open>fetch\<close> returns, \<open>toFetch\<close> is empty and every name of \<open>toFetch\<close> that
  reached a fetcher (its specification is a \<open>SourceFetcher\<close> whose kind has an entry
  in \<open>fetchers\<close>) is in \<open>fetched\<close> with its source directory. Every name of \<open>toFetch\<close>
  that reached no fetcher is of the system kind, its lookup result is in \<open>ignored\<close>
  under that result's own name (\<open>ignored\<close> is keyed by \<open>el.name\<close>), its entry in
  \<open>fetched\<close> is untouched and no fetcher was invoked for its directory. So a name of
  the system kind is in \<open>ignored\<close> under its own name, and not fetched, when no fetcher
  is registered for the system kind and the registry returns the package under the
  name looked up.
\<close>

theorem fetch_returns:
  assumes "fetch e srcDir self = Inr (self', calls)"
  shows "toFetch self' = [] \<and>
    (\<forall>n \<in> set (map fst (toFetch self)).
        fetchable e n \<longrightarrow> map_of (fetched self') n = Some (Dir (source_dir e srcDir n))) \<and>
    (\<forall>n \<in> set (map fst (toFetch self)).
        \<not> fetchable e n \<longrightarrow>
        spec_type (fetcher (registry_lookup e n)) = system \<and>
        dict_contains (pkg_name (registry_lookup e n)) (ignored self') \<and>
        map_of (fetched self') n = map_of (fetched self) n \<and>
        path_div srcDir n \<notin> set (map call_outDir calls)) \<and>
    (\<forall>n \<in> set (map fst (toFetch self)).
        spec_type (fetcher (registry_lookup e n)) = system \<and> fetchers e system = None
          \<and> pkg_name (registry_lookup e n) = n \<longrightarrow>
        dict_contains n (ignored self') \<and> map_of (fetched self') n = map_of (fetched self) n
          \<and> path_div srcDir n \<notin> set (map call_outDir calls))"
proof -
  from assms obtain res ign where
    loop: "clonePackagesRepos_loop e srcDir (map fst (toFetch self)) ([], [], []) = (res, ign, calls)"
    and chk: "check_ignored ign = None"
    and self': "self' = self\<lparr>fetched := dict_update (fetched self) res, toFetch := [],
                    ignored := dict_update (ignored self)
                                 (dict_update [] (map (\<lambda>el. (pkg_name el, el)) ign))\<rparr>"
    by (rule fetch_Inr_unfold)
  have dist: "distinct (map fst res)"
    using clonePackagesRepos_loop_distinct[OF loop] by simp
  have res: "map_of res n =
      (if n \<in> set (map fst (toFetch self)) \<and> fetchable e n
       then Some (Dir (source_dir e srcDir n)) else None)" for n
    using clonePackagesRepos_loop_res[OF loop, of n] by simp
  have ign: "ign = map (registry_lookup e) (filter (\<lambda>n. \<not> fetchable e n) (map fst (toFetch self)))"
    using clonePackagesRepos_loop_ignored[OF loop] by simp
  have calls: "map call_outDir calls =
      map (path_div srcDir) (filter (fetchable e) (map fst (toFetch self)))"
    using clonePackagesRepos_loop_calls[OF loop] by simp
  have fetched': "map_of (fetched self') n =
      (case map_of res n of None \<Rightarrow> map_of (fetched self) n | Some v \<Rightarrow> Some v)" for n
    by (simp add: self' dict_update_map_of_distinct[OF dist])
  have p1: "toFetch self' = []"
    by (simp add: self')
  have p2: "map_of (fetched self') n = Some (Dir (source_dir e srcDir n))"
    if "n \<in> set (map fst (toFetch self))" "fetchable e n" for n
    using that by (simp add: fetched' res)
  have p3: "spec_type (fetcher (registry_lookup e n)) = system \<and>
        dict_contains (pkg_name (registry_lookup e n)) (ignored self') \<and>
        map_of (fetched self') n = map_of (fetched self) n \<and>
        path_div srcDir n \<notin> set (map call_outDir calls)"
    if n: "n \<in> set (map fst (toFetch self))" and nf: "\<not> fetchable e n" for n
  proof -
    have mem: "registry_lookup e n \<in> set ign"
      using n nf by (auto simp: ign)
    with chk have s: "spec_type (fetcher (registry_lookup e n)) = system"
      by (simp add: check_ignored_None)
    from mem have "pkg_name (registry_lookup e n) \<in> fst ` set (map (\<lambda>el. (pkg_name el, el)) ign)"
      by force
    then have "pkg_name (registry_lookup e n) \<in> fst ` set (ignored self')"
      by (simp add: self' dict_update_keys)
    then have a: "dict_contains (pkg_name (registry_lookup e n)) (ignored self')"
      by (simp add: dict_contains_def)
    have b: "map_of (fetched self') n = map_of (fetched self) n"
      using nf by (simp add: fetched' res)
    have c: "path_div srcDir n \<notin> set (map call_outDir calls)"
      using nf by (auto simp: calls path_div_inject)
    from s a b c show ?thesis by blast
  qed
  have p4: "dict_contains n (ignored self') \<and> map_of (fetched self') n = map_of (fetched self) n
          \<and> path_div srcDir n \<notin> set (map call_outDir calls)"
    if n: "n \<in> set (map fst (toFetch self))"
      and sys: "spec_type (fetcher (registry_lookup e n)) = system" "fetchers e system = None"
      and nm: "pkg_name (registry_lookup e n) = n" for n
  proof -
    have nf: "\<not> fetchable e n"
      using sys by (auto simp: fetchable_def split: fetcherSpec.splits)
    from p3[OF n nf] nm show ?thesis by simp
  qed
  from p1 p2 p3 p4 show ?thesis by blast
qed

theorem fetch_returns_witness:
  "\<exists>self' calls.
     fetch system_env [''install_t'']
       ((pkgs new_ResolutionRound)\<lparr>toFetch := [(''A'', One), (''E'', One)]\<rparr>) = Inr (self', calls) \<and>
     toFetch self' = [] \<and>
     map_of (fetched self') ''A'' = Some (Dir [''install_t'', ''A'']) \<and>
     dict_contains ''E'' (ignored self') \<and>
     map_of (fetched self') ''E'' = None \<and>
     [''install_t'', ''E''] \<notin> set (map call_outDir calls)"
proof -
  let ?lane = "(pkgs new_ResolutionRound)\<lparr>toFetch := [(''A'', One), (''E'', One)]\<rparr>"
  have "\<not> isl (fetch system_env [''install_t''] ?lane)"
    by code_simp
  then obtain self' calls where r: "fetch system_env [''install_t''] ?lane = Inr (self', calls)"
    by (cases "fetch system_env [''install_t''] ?lane") auto
  have a: "fetchable system_env ''A''"
    by code_simp
  have da: "source_dir system_env [''install_t''] ''A'' = [''install_t'', ''A'']"
    by code_simp
  have e: "spec_type (fetcher (registry_lookup system_env ''E'')) = system"
    "fetchers system_env system = None" "pkg_name (registry_lookup system_env ''E'') = ''E''"
    by code_simp+
  have f0: "map_of (fetched ?lane) ''E'' = None"
    by code_simp
  have pe: "path_div [''install_t''] ''E'' = [''install_t'', ''E'']"
    by code_simp
  from fetch_returns[OF r] a da e f0 pe
  have "toFetch self' = [] \<and>
     map_of (fetched self') ''A'' = Some (Dir [''install_t'', ''A'']) \<and>
     dict_contains ''E'' (ignored self') \<and>
     map_of (fetched self') ''E'' = None \<and>
     [''install_t'', ''E''] \<notin> set (map call_outDir calls)"
    by simp
  with r show ?thesis by blast
qed

text \<open>
  Without those two conditions a name of the system kind need not end in \<open>ignored\<close>:
  with a registry that returns \<open>E\<close> as \<open>e-sys\<close>, \<open>fetch\<close> returns and \<open>ignored\<close> has no key
  \<open>E\<close>; with a fetcher registered for the system kind and \<open>E\<close> a \<open>SourceFetcher\<close> of that
  kind, \<open>fetch\<close> returns, \<open>E\<close> is fetched and \<open>ignored\<close> has no key \<open>E\<close>.
\<close>

theorem fetch_system_kind_counterexample:
  "\<not> isl (fetch renaming_env [''install_t'']
            ((pkgs new_ResolutionRound)\<lparr>toFetch := [(''E'', One)]\<rparr>)) \<and>
   spec_type (fetcher (registry_lookup renaming_env ''E'')) = system \<and>
   \<not> dict_contains ''E''
       (ignored (fst (projr (fetch renaming_env [''install_t'']
                               ((pkgs new_ResolutionRound)\<lparr>toFetch := [(''E'', One)]\<rparr>))))) \<and>
   \<not> isl (fetch system_fetcher_env [''install_t'']
            ((pkgs new_ResolutionRound)\<lparr>toFetch := [(''E'', One)]\<rparr>)) \<and>
   spec_type (fetcher (registry_lookup system_fetcher_env ''E'')) = system \<and>
   \<not> dict_contains ''E''
       (ignored (fst (projr (fetch system_fetcher_env [''install_t'']
                               ((pkgs new_ResolutionRound)\<lparr>toFetch := [(''E'', One)]\<rparr>))))) \<and>
   map_of (fetched (fst (projr (fetch system_fetcher_env [''install_t'']
                               ((pkgs new_ResolutionRound)\<lparr>toFetch := [(''E'', One)]\<rparr>))))) ''E''
     = Some (Dir [''install_t'', ''E''])"
  by code_simp



subsection \<open>The \<open>upgrade\<close> preference\<close>

lemma clone_upgrade_False:
  "clone (prefs\<lparr>upgrade := u\<rparr>) (Some False) None None = clone prefs (Some False) None None"
  by (simp add: clone_def)

lemma while_rr_upgrade:
  "while_rr n e (prefs\<lparr>upgrade := u\<rparr>) sd rr self = while_rr n e prefs sd rr self"
  by (induction n arbitrary: rr self) (simp_all add: clone_upgrade_False split: sum.splits)

lemma downloadPackagesAndTheirDependencies_upgrade:
  "downloadPackagesAndTheirDependencies fuel e (prefs\<lparr>upgrade := u\<rparr>) names self =
   downloadPackagesAndTheirDependencies fuel e prefs names self"
  by (simp add: downloadPackagesAndTheirDependencies_def while_rr_upgrade)

text \<open>
  C9. The loop hands every round the preferences cloned with \<open>upgrade\<close> false, so two
  runs whose preferences differ only in \<open>upgrade\<close> give the same result for every
  amount of fuel: the same rounds called (with what each fetched, resolved and
  ignored), the same fetcher invocations, the same last round and installations, the
  same error if any.
\<close>

theorem installer_call_ignores_upgrade:
  "\<not> upgrade (clone prefs (Some False) None None) \<and>
   installer_call fuel e (prefs\<lparr>upgrade := u1\<rparr>) names self =
   installer_call fuel e (prefs\<lparr>upgrade := u2\<rparr>) names self"
  by (simp add: installer_call_def downloadPackagesAndTheirDependencies_upgrade clone_def)

subsection \<open>Resolved names are keys of \<open>installDirs\<close>\<close>

lemma lane_le_refl: "lane_le lane lane"
  by (simp add: lane_le_def)

lemma lane_le_trans:
  assumes "lane_le a b" and "lane_le b c"
  shows "lane_le a c"
proof -
  from assms have f: "fst ` set (fetched a) \<subseteq> fst ` set (fetched b)"
      "fst ` set (fetched b) \<subseteq> fst ` set (fetched c)"
    and r: "fst ` set (resolved a) \<subseteq> fst ` set (resolved b)"
      "fst ` set (resolved b) \<subseteq> fst ` set (resolved c)"
    and m: "moveToThis a = moveToThis b" "moveToThis b = moveToThis c"
    by (simp_all add: lane_le_def)
  from order_trans[OF f] order_trans[OF r] m show ?thesis
    by (simp add: lane_le_def)
qed

lemma stageToCollection_apply_le:
  "lane_le
     (stageToCollection_apply stage (AList.delete el)
        (stageToCollection_apply stage (AList.update el One) lane)) lane"
proof (cases stage)
  case stage_fetched
  have "fst ` set (AList.delete el (fetched lane)) \<subseteq> fst ` set (fetched lane)"
    by (rule AList.dom_delete_subset)
  with stage_fetched show ?thesis
    by (simp add: lane_le_def AList.delete_update_same)
next
  case depsResolved
  have "fst ` set (AList.delete el (resolved lane)) \<subseteq> fst ` set (resolved lane)"
    by (rule AList.dom_delete_subset)
  with depsResolved show ?thesis
    by (simp add: lane_le_def AList.delete_update_same)
qed (simp_all add: lane_le_def)

lemma otherSubRound_body_le: "lane_le (otherSubRound_body mv el lane) lane"
  by (simp add: otherSubRound_body_def Let_def stageToCollection_apply_le lane_le_refl)

lemma otherSubRound_body_id: "\<not> mv \<Longrightarrow> otherSubRound_body mv el lane = lane"
  by (simp add: otherSubRound_body_def Let_def)

lemma list_all2_lane_le_map: "list_all2 lane_le (map (otherSubRound_body mv el) lanes) lanes"
  by (induction lanes) (simp_all add: otherSubRound_body_le)

lemma list_all2_lane_le_trans:
  "list_all2 lane_le xs ys \<Longrightarrow> list_all2 lane_le ys zs \<Longrightarrow> list_all2 lane_le xs zs"
proof -
  assume a: "list_all2 lane_le xs ys" and b: "list_all2 lane_le ys zs"
  show ?thesis
    by (rule list_all2_trans[OF _ a b]) (rule lane_le_trans)
qed

lemma map_otherSubRound_body_id:
  "\<not> mv \<Longrightarrow> map (otherSubRound_body mv el) lanes = lanes"
  by (induction lanes) (simp_all add: otherSubRound_body_id)

lemma appendNewDeps_effect:
  "appendNewDeps e self prefs srcs others succ = (self', others', succ') \<Longrightarrow>
   self' = self \<and> list_all2 lane_le others' others \<and>
   (\<not> moveToThis self \<longrightarrow> others' = others) \<and>
   resolved succ' = resolved succ \<and> moveToThis succ' = moveToThis succ"
proof (induction srcs arbitrary: others succ)
  case Nil
  then show ?case by (simp add: list_all2_refl lane_le_refl)
next
  case (Cons el rest)
  let ?others1 = "map (otherSubRound_body (moveToThis self) (req_name el)) others"
  have o1: "list_all2 lane_le ?others1 others"
    by (rule list_all2_lane_le_map)
  have o2: "\<not> moveToThis self \<Longrightarrow> ?others1 = others"
    by (rule map_otherSubRound_body_id)
  consider (skip) "dict_contains (req_name el) (ignored self) \<or> \<not> isReInstallationNeeded e el prefs"
    | (own) "\<not> dict_contains (req_name el) (ignored self)" "isReInstallationNeeded e el prefs"
        "stage_truthy (isAlreadyBeingProcessed self (req_name el))"
    | (add) "\<not> dict_contains (req_name el) (ignored self)" "isReInstallationNeeded e el prefs"
        "\<not> stage_truthy (isAlreadyBeingProcessed self (req_name el))"
    by blast
  then show ?case
  proof cases
    case skip
    with Cons.prems have "appendNewDeps e self prefs rest others succ = (self', others', succ')"
      by (cases "dict_contains (req_name el) (ignored self)") simp_all
    from Cons.IH[OF this] show ?thesis .
  next
    case own
    with Cons.prems have "appendNewDeps e self prefs rest ?others1 succ = (self', others', succ')"
      by (simp add: Let_def)
    from Cons.IH[OF this]
    have ih: "self' = self" "list_all2 lane_le others' ?others1"
      "\<not> moveToThis self \<longrightarrow> others' = ?others1"
      "resolved succ' = resolved succ" "moveToThis succ' = moveToThis succ"
      by blast+
    from ih(2) o1 have "list_all2 lane_le others' others"
      by (rule list_all2_lane_le_trans)
    moreover from ih(3) o2 have "\<not> moveToThis self \<longrightarrow> others' = others"
      by simp
    ultimately show ?thesis using ih(1,4,5) by blast
  next
    case add
    let ?succ1 = "succ\<lparr>toFetch := AList.update (req_name el) One (toFetch succ)\<rparr>"
    from add Cons.prems
    have "appendNewDeps e self prefs rest ?others1 ?succ1 = (self', others', succ')"
      by (simp add: Let_def)
    from Cons.IH[OF this]
    have ih: "self' = self" "list_all2 lane_le others' ?others1"
      "\<not> moveToThis self \<longrightarrow> others' = ?others1"
      "resolved succ' = resolved ?succ1" "moveToThis succ' = moveToThis ?succ1"
      by blast+
    from ih(2) o1 have "list_all2 lane_le others' others"
      by (rule list_all2_lane_le_trans)
    moreover from ih(3) o2 have "\<not> moveToThis self \<longrightarrow> others' = others"
      by simp
    ultimately show ?thesis using ih(1,4,5) by simp
  qed
qed

lemma subRounds_put_same: "subRounds (subRounds_put k lane r) k = lane"
  by (cases k) simp_all

lemma subRounds_put_other: "k' \<noteq> k \<Longrightarrow> subRounds (subRounds_put k lane r) k' = subRounds r k'"
  by (cases k; cases k') simp_all

lemma otherSubRoundIdxs_cases:
  "otherSubRoundIdxs Build = [Pkgs]" "otherSubRoundIdxs Pkgs = [Build]"
  by (simp_all add: otherSubRoundIdxs_def subRounds_keys_def)

lemma otherSubRoundIdxs_single: "\<exists>k. otherSubRoundIdxs t = [k] \<and> k \<noteq> t \<and> (\<forall>k'. k' \<noteq> t \<longrightarrow> k' = k)"
proof (cases t)
  case Build
  have "\<forall>k'. k' \<noteq> Build \<longrightarrow> k' = Pkgs"
    by (auto intro: ResolutionRoundSubRound.exhaust)
  with Build show ?thesis by (simp add: otherSubRoundIdxs_cases)
next
  case Pkgs
  have "\<forall>k'. k' \<noteq> Pkgs \<longrightarrow> k' = Build"
    by (auto intro: ResolutionRoundSubRound.exhaust)
  with Pkgs show ?thesis by (simp add: otherSubRoundIdxs_cases)
qed

lemma un_sub_refl: "(A::'a set) \<subseteq> A \<union> B \<union> N"
  by blast

lemma un_sub_mono: "(A::'a set) \<subseteq> B \<union> N \<Longrightarrow> N \<subseteq> M \<Longrightarrow> A \<subseteq> B \<union> M"
  by blast

lemma un_sub_trans: "(C::'a set) \<subseteq> B \<union> N \<Longrightarrow> A \<subseteq> C \<union> N \<Longrightarrow> A \<subseteq> B \<union> N"
  by blast

lemma un_sub_trans3:
  "(S1::'a set) \<subseteq> S0 \<union> R0 \<union> N \<Longrightarrow> S2 \<subseteq> S1 \<union> R1 \<union> N \<Longrightarrow> R1 \<subseteq> R0 \<union> N
   \<Longrightarrow> S2 \<subseteq> S0 \<union> R0 \<union> N"
  by blast

lemma rs_stepI:
  assumes "fetched (subRounds (this_round st') t) = fetched (subRounds (this_round st) t)"
    and "fst ` set (resolved (subRounds (this_round st') t))
           \<subseteq> fst ` set (resolved (subRounds (this_round st) t)) \<union> N"
    and "\<And>k. k \<noteq> t \<Longrightarrow> lane_le (subRounds (this_round st') k) (subRounds (this_round st) k)"
    and "\<And>k. \<not> moveToThis (subRounds (this_round st) t) \<Longrightarrow> k \<noteq> t \<Longrightarrow>
            subRounds (this_round st') k = subRounds (this_round st) k"
    and "\<And>k. moveToThis (subRounds (this_round st') k) = moveToThis (subRounds (this_round st) k)"
    and "\<And>k. moveToThis (subRounds (successor_round st') k)
              = moveToThis (subRounds (successor_round st) k)"
    and "\<And>k. fst ` set (resolved (subRounds (successor_round st') k))
              \<subseteq> fst ` set (resolved (subRounds (successor_round st) k))
                \<union> fst ` set (resolved (subRounds (this_round st) t)) \<union> N"
  shows "rs_step t N st st'"
  unfolding rs_step_def using assms by simp

lemma rs_stepD:
  assumes "rs_step t N st st'"
  shows "fetched (subRounds (this_round st') t) = fetched (subRounds (this_round st) t)"
    and "fst ` set (resolved (subRounds (this_round st') t))
           \<subseteq> fst ` set (resolved (subRounds (this_round st) t)) \<union> N"
    and "\<And>k. k \<noteq> t \<Longrightarrow> lane_le (subRounds (this_round st') k) (subRounds (this_round st) k)"
    and "\<And>k. \<not> moveToThis (subRounds (this_round st) t) \<Longrightarrow> k \<noteq> t \<Longrightarrow>
            subRounds (this_round st') k = subRounds (this_round st) k"
    and "\<And>k. moveToThis (subRounds (this_round st') k) = moveToThis (subRounds (this_round st) k)"
    and "\<And>k. moveToThis (subRounds (successor_round st') k)
              = moveToThis (subRounds (successor_round st) k)"
    and "\<And>k. fst ` set (resolved (subRounds (successor_round st') k))
              \<subseteq> fst ` set (resolved (subRounds (successor_round st) k))
                \<union> fst ` set (resolved (subRounds (this_round st) t)) \<union> N"
  using assms unfolding rs_step_def by simp_all

lemma rs_step_refl: "rs_step t N st st"
  by (rule rs_stepI) (simp_all add: lane_le_refl un_sub_refl)

lemma rs_step_mono:
  assumes a: "rs_step t N st st'" and nm: "N \<subseteq> M"
  shows "rs_step t M st st'"
proof (rule rs_stepI)
  show "fst ` set (resolved (subRounds (this_round st') t))
           \<subseteq> fst ` set (resolved (subRounds (this_round st) t)) \<union> M"
    using un_sub_mono[OF rs_stepD(2)[OF a] nm] .
  show "fst ` set (resolved (subRounds (successor_round st') k))
              \<subseteq> fst ` set (resolved (subRounds (successor_round st) k))
                \<union> fst ` set (resolved (subRounds (this_round st) t)) \<union> M" for k
    using un_sub_mono[OF rs_stepD(7)[OF a, of k] nm] .
qed (simp_all add: rs_stepD[OF a])

lemma rs_step_trans:
  assumes a: "rs_step t N st st'" and b: "rs_step t N st' st''"
  shows "rs_step t N st st''"
proof (rule rs_stepI)
  show "fetched (subRounds (this_round st'') t) = fetched (subRounds (this_round st) t)"
    using rs_stepD(1)[OF a] rs_stepD(1)[OF b] by simp
  show "fst ` set (resolved (subRounds (this_round st'') t))
           \<subseteq> fst ` set (resolved (subRounds (this_round st) t)) \<union> N"
    using un_sub_trans[OF rs_stepD(2)[OF a] rs_stepD(2)[OF b]] .
  show "lane_le (subRounds (this_round st'') k) (subRounds (this_round st) k)" if "k \<noteq> t" for k
    using lane_le_trans[OF rs_stepD(3)[OF b that] rs_stepD(3)[OF a that]] .
  show "subRounds (this_round st'') k = subRounds (this_round st) k"
    if m: "\<not> moveToThis (subRounds (this_round st) t)" and k: "k \<noteq> t" for k
  proof -
    from m rs_stepD(5)[OF a, of t] have "\<not> moveToThis (subRounds (this_round st') t)" by simp
    from rs_stepD(4)[OF b this k] rs_stepD(4)[OF a m k] show ?thesis by simp
  qed
  show "moveToThis (subRounds (this_round st'') k) = moveToThis (subRounds (this_round st) k)" for k
    using rs_stepD(5)[OF a, of k] rs_stepD(5)[OF b, of k] by simp
  show "moveToThis (subRounds (successor_round st'') k)
                  = moveToThis (subRounds (successor_round st) k)" for k
    using rs_stepD(6)[OF a, of k] rs_stepD(6)[OF b, of k] by simp
  show "fst ` set (resolved (subRounds (successor_round st'') k))
              \<subseteq> fst ` set (resolved (subRounds (successor_round st) k))
                \<union> fst ` set (resolved (subRounds (this_round st) t)) \<union> N" for k
    using un_sub_trans3[OF rs_stepD(7)[OF a, of k] rs_stepD(7)[OF b, of k] rs_stepD(2)[OF a]] .
qed

lemma list_all2_single: "list_all2 P xs [y] \<Longrightarrow> \<exists>x. xs = [x] \<and> P x y"
  by (cases xs) (auto simp: list_all2_Cons2)

lemma subroundSuccessorPrefs_loop_step:
  "\<exists>st1. subroundSuccessorPrefs_loop e prefs t nm dir md (d # rest) st
            = subroundSuccessorPrefs_loop e prefs t nm dir md rest st1 \<and>
         rs_step t {nm} st st1"
proof -
  let ?r = "this_round st"
  let ?s = "successor_round st"
  from otherSubRoundIdxs_single[of t] obtain ok where
    ok: "otherSubRoundIdxs t = [ok]" "ok \<noteq> t" and only: "\<And>k'. k' \<noteq> t \<Longrightarrow> k' = ok"
    by blast
  let ?prefs' = "clone_patch prefs (prefsPatch (subRounds ?r d))"
  let ?ds = "map (unpinRequirement e) (depsGetter (subRounds ?r d) prefs md)"
  obtain self' others' succ' where
    app: "appendNewDeps e (subRounds ?r t) ?prefs' ?ds [subRounds ?r ok] (subRounds ?s d)
            = (self', others', succ')"
    by (cases "appendNewDeps e (subRounds ?r t) ?prefs' ?ds [subRounds ?r ok] (subRounds ?s d)")
  from appendNewDeps_effect[OF app]
  have eff: "self' = subRounds ?r t" "list_all2 lane_le others' [subRounds ?r ok]"
    "\<not> moveToThis (subRounds ?r t) \<longrightarrow> others' = [subRounds ?r ok]"
    "resolved succ' = resolved (subRounds ?s d)"
    "moveToThis succ' = moveToThis (subRounds ?s d)"
    by simp_all
  from list_all2_single[OF eff(2)] obtain o' where
    o': "others' = [o']" "lane_le o' (subRounds ?r ok)"
    by blast
  from eff(3) o'(1) have oid: "\<not> moveToThis (subRounds ?r t) \<Longrightarrow> o' = subRounds ?r ok"
    by simp
  let ?r2 = "subRounds_put ok o' (subRounds_put t (subRounds ?r t) ?r)"
  let ?this' = "subRounds ?r t"
  let ?r3 = "subRounds_put t (?this'\<lparr>resolved := AList.update nm dir (resolved ?this')\<rparr>) ?r2"
  let ?st1 = "\<lparr>this_round = ?r3, successor_round = subRounds_put d succ' ?s,
               successorSubRound = Some d\<rparr>"
  have r2t: "subRounds ?r2 t = subRounds ?r t"
    using ok(2) by (simp add: subRounds_put_other subRounds_put_same)
  have eq: "subroundSuccessorPrefs_loop e prefs t nm dir md (d # rest) st
            = subroundSuccessorPrefs_loop e prefs t nm dir md rest ?st1"
    using app ok(1) by (simp add: Let_def eff(1) o'(1) r2t)
  have r3t: "subRounds ?r3 t = ?this'\<lparr>resolved := AList.update nm dir (resolved ?this')\<rparr>"
    by (simp add: subRounds_put_same)
  have r3o: "subRounds ?r3 k = o'" if "k \<noteq> t" for k
    using only[OF that] ok(2) by (simp add: subRounds_put_other subRounds_put_same)
  have rk: "subRounds ?r k = subRounds ?r ok" if "k \<noteq> t" for k
    using only[OF that] by simp
  have mv: "moveToThis (subRounds ?r3 k) = moveToThis (subRounds ?r k)" for k
  proof (cases "k = t")
    case True
    then show ?thesis by (simp add: r3t)
  next
    case False
    with o'(2) show ?thesis by (simp add: r3o rk lane_le_def)
  qed
  have sk: "resolved (subRounds (subRounds_put d succ' ?s) k) = resolved (subRounds ?s k)"
    "moveToThis (subRounds (subRounds_put d succ' ?s) k) = moveToThis (subRounds ?s k)" for k
    by (cases "k = d"; simp add: subRounds_put_same subRounds_put_other eff(4,5))+
  have "rs_step t {nm} st ?st1"
  proof (rule rs_stepI)
    show "fetched (subRounds (this_round ?st1) t) = fetched (subRounds (this_round st) t)"
      by (simp add: r3t)
    show "fst ` set (resolved (subRounds (this_round ?st1) t))
           \<subseteq> fst ` set (resolved (subRounds (this_round st) t)) \<union> {nm}"
      by (simp add: r3t AList.dom_update)
    show "lane_le (subRounds (this_round ?st1) k) (subRounds (this_round st) k)" if "k \<noteq> t" for k
      using o'(2) by (simp add: r3o[OF that] rk[OF that])
    show "subRounds (this_round ?st1) k = subRounds (this_round st) k"
      if "\<not> moveToThis (subRounds (this_round st) t)" "k \<noteq> t" for k
    proof -
      have "subRounds (this_round ?st1) k = o'"
        using r3o[OF that(2)] by simp
      also have "\<dots> = subRounds ?r ok"
        using oid[OF that(1)] .
      also have "\<dots> = subRounds (this_round st) k"
        using rk[OF that(2)] by simp
      finally show ?thesis .
    qed
    show "moveToThis (subRounds (this_round ?st1) k) = moveToThis (subRounds (this_round st) k)" for k
      using mv[of k] by simp
    show "moveToThis (subRounds (successor_round ?st1) k)
              = moveToThis (subRounds (successor_round st) k)" for k
      using sk(2)[of k] by simp
    show "fst ` set (resolved (subRounds (successor_round ?st1) k))
              \<subseteq> fst ` set (resolved (subRounds (successor_round st) k))
                \<union> fst ` set (resolved (subRounds (this_round st) t)) \<union> {nm}" for k
    proof -
      have "resolved (subRounds (successor_round ?st1) k) = resolved (subRounds (successor_round st) k)"
        using sk(1)[of k] by simp
      then show ?thesis
        by (simp only: un_sub_refl)
    qed
  qed
  with eq show ?thesis by blast
qed

lemma subroundSuccessorPrefs_loop_rs_step:
  "rs_step t {nm} st (subroundSuccessorPrefs_loop e prefs t nm dir md ks st)"
proof (induction ks arbitrary: st)
  case Nil
  show ?case by (simp add: rs_step_refl)
next
  case (Cons d rest)
  from subroundSuccessorPrefs_loop_step[of e prefs t nm dir md d rest st]
  obtain st1 where eq: "subroundSuccessorPrefs_loop e prefs t nm dir md (d # rest) st
            = subroundSuccessorPrefs_loop e prefs t nm dir md rest st1"
    and s1: "rs_step t {nm} st st1"
    by blast
  from rs_step_trans[OF s1 Cons.IH[of st1]] eq show ?case by simp
qed

lemma line290_rs_step:
  "rs_step t {}  st
     (st\<lparr>successor_round :=
         subRounds_put sIdx
           ((subRounds (successor_round st) sIdx)
              \<lparr>resolved := dict_update (resolved (subRounds (successor_round st) sIdx))
                             (resolved (subRounds (this_round st) t))\<rparr>)
           (successor_round st)\<rparr>)"
proof (rule rs_stepI)
  let ?tg = "(subRounds (successor_round st) sIdx)
              \<lparr>resolved := dict_update (resolved (subRounds (successor_round st) sIdx))
                             (resolved (subRounds (this_round st) t))\<rparr>"
  let ?st' = "st\<lparr>successor_round := subRounds_put sIdx ?tg (successor_round st)\<rparr>"
  show "moveToThis (subRounds (successor_round ?st') k) = moveToThis (subRounds (successor_round st) k)" for k
    by (cases "k = sIdx") (simp_all add: subRounds_put_same subRounds_put_other)
  show "fst ` set (resolved (subRounds (successor_round ?st') k))
              \<subseteq> fst ` set (resolved (subRounds (successor_round st) k))
                \<union> fst ` set (resolved (subRounds (this_round st) t)) \<union> {}" for k
    by (cases "k = sIdx") (simp_all add: subRounds_put_same subRounds_put_other dict_update_keys)
qed (simp_all add: lane_le_refl)

lemma fetched_items_loop_rs_step:
  "fetched_items_loop e prefs t items st = Inr st' \<Longrightarrow> rs_step t (fst ` set items) st st'"
proof (induction items arbitrary: st)
  case Nil
  then show ?case by (simp add: rs_step_refl)
next
  case (Cons item rest)
  obtain nm dir where item: "item = (nm, dir)" by (cases item)
  let ?N = "fst ` set (item # rest)"
  let ?st1 = "if \<not> dict_contains nm (ignored (subRounds (this_round st) t)) then
               subroundSuccessorPrefs_loop e prefs t nm dir
                 (extractMetadata e dir) subRounds_keys st
             else st"
  have s1: "rs_step t {nm} st ?st1"
    by (simp add: subroundSuccessorPrefs_loop_rs_step rs_step_refl)
  from Cons.prems item obtain sIdx where sIdx: "successorSubRound ?st1 = Some sIdx"
    by (cases "successorSubRound ?st1") (simp_all add: Let_def)
  let ?st2 = "?st1\<lparr>successor_round :=
         subRounds_put sIdx
           ((subRounds (successor_round ?st1) sIdx)
              \<lparr>resolved := dict_update (resolved (subRounds (successor_round ?st1) sIdx))
                             (resolved (subRounds (this_round ?st1) t))\<rparr>)
           (successor_round ?st1)\<rparr>"
  from Cons.prems item sIdx have rest: "fetched_items_loop e prefs t rest ?st2 = Inr st'"
    by (simp add: Let_def)
  have s2: "rs_step t {} ?st1 ?st2"
    by (rule line290_rs_step)
  have n1: "{nm} \<subseteq> ?N" "{} \<subseteq> ?N" "fst ` set rest \<subseteq> ?N"
    using item by auto
  from rs_step_trans[OF rs_step_trans[OF rs_step_mono[OF s1 n1(1)] rs_step_mono[OF s2 n1(2)]]
      rs_step_mono[OF Cons.IH[OF rest] n1(3)]]
  show ?case .
qed

lemma thisOtherSubRounds_loop_two:
  assumes "thisOtherSubRounds_loop e prefs [Build, Pkgs] st0 = Inr st2"
  obtains st1 where
    "fetched_items_loop e prefs Build (fetched (build (this_round st0))) st0 = Inr st1"
    "fetched_items_loop e prefs Pkgs (fetched (pkgs (this_round st1))) st1 = Inr st2"
  using assms by (auto split: sum.splits)

lemma resolveDeps_effect:
  assumes rd: "resolveDeps e prefs r s = Inr (r', s')"
    and mv: "\<not> moveToThis (pkgs r)"
  shows "fst ` set (resolved (build r')) \<subseteq> fst ` set (resolved (build r)) \<union> fst ` set (fetched (build r'))"
    and "fst ` set (resolved (pkgs r')) \<subseteq> fst ` set (resolved (pkgs r)) \<union> fst ` set (fetched (pkgs r'))"
    and "\<And>k. fst ` set (resolved (subRounds s' k))
            \<subseteq> fst ` set (resolved (subRounds s k))
              \<union> (fst ` set (resolved (build r)) \<union> fst ` set (resolved (pkgs r)))
              \<union> (fst ` set (fetched (build r')) \<union> fst ` set (fetched (pkgs r')))"
    and "\<And>k. moveToThis (subRounds s' k) = moveToThis (subRounds s k)"
    and "\<And>k. moveToThis (subRounds r' k) = moveToThis (subRounds r k)"
proof -
  let ?st0 = "\<lparr>this_round = r, successor_round = s, successorSubRound = None\<rparr>"
  from rd obtain st2 where
    loop: "thisOtherSubRounds_loop e prefs [Build, Pkgs] ?st0 = Inr st2"
    and r': "r' = this_round st2" and s': "s' = successor_round st2"
    by (auto simp: resolveDeps_def subRounds_keys_def split: sum.splits)
  from loop obtain st1 where
    l1: "fetched_items_loop e prefs Build (fetched (build (this_round ?st0))) ?st0 = Inr st1"
    and l2: "fetched_items_loop e prefs Pkgs (fetched (pkgs (this_round st1))) st1 = Inr st2"
    by (rule thisOtherSubRounds_loop_two)
  note A = rs_stepD[OF fetched_items_loop_rs_step[OF l1]]
  note B = rs_stepD[OF fetched_items_loop_rs_step[OF l2]]
  define Fb0 where "Fb0 = fst ` set (fetched (build r))"
  define Rb0 where "Rb0 = fst ` set (resolved (build r))"
  define Rp0 where "Rp0 = fst ` set (resolved (pkgs r))"
  define Fp1 where "Fp1 = fst ` set (fetched (pkgs (this_round st1)))"
  define Rb1 where "Rb1 = fst ` set (resolved (build (this_round st1)))"
  define Rp1 where "Rp1 = fst ` set (resolved (pkgs (this_round st1)))"
  define Rp2 where "Rp2 = fst ` set (resolved (pkgs (this_round st2)))"
  define S0 where "S0 = (\<lambda>k. fst ` set (resolved (subRounds s k)))"
  define S1 where "S1 = (\<lambda>k. fst ` set (resolved (subRounds (successor_round st1) k)))"
  define S2 where "S2 = (\<lambda>k. fst ` set (resolved (subRounds (successor_round st2) k)))"
  have fb1: "fetched (build (this_round st1)) = fetched (build r)"
    using A(1) by simp
  have rb1: "Rb1 \<subseteq> Rb0 \<union> Fb0"
    using A(2) by (simp add: Rb1_def Rb0_def Fb0_def)
  have lp: "lane_le (pkgs (this_round st1)) (pkgs r)"
    using A(3)[of Pkgs] by simp
  then have rp1: "Rp1 \<subseteq> Rp0" and mv1: "\<not> moveToThis (pkgs (this_round st1))"
    using mv by (simp_all add: lane_le_def Rp1_def Rp0_def)
  have s1: "S1 k \<subseteq> S0 k \<union> Rb0 \<union> Fb0" for k
    using A(7)[of k] by (simp add: S1_def S0_def Rb0_def Fb0_def)
  have fp2: "fetched (pkgs (this_round st2)) = fetched (pkgs (this_round st1))"
    using B(1) by simp
  have rp2: "Rp2 \<subseteq> Rp1 \<union> Fp1"
    using B(2) by (simp add: Rp2_def Rp1_def Fp1_def)
  have b2: "build (this_round st2) = build (this_round st1)"
    using B(4)[of Build] mv1 by simp
  have s2: "S2 k \<subseteq> S1 k \<union> Rp1 \<union> Fp1" for k
    using B(7)[of k] by (simp add: S2_def S1_def Rp1_def Fp1_def)
  have g1: "Rb1 \<subseteq> Rb0 \<union> Fb0"
    by (rule rb1)
  have g2: "Rp2 \<subseteq> Rp0 \<union> Fp1"
    using rp2 rp1 by blast
  have g3: "S2 k \<subseteq> S0 k \<union> (Rb0 \<union> Rp0) \<union> (Fb0 \<union> Fp1)" for k
    using s2[of k] s1[of k] rp1 by blast
  show "fst ` set (resolved (build r')) \<subseteq> fst ` set (resolved (build r)) \<union> fst ` set (fetched (build r'))"
    using g1 by (simp add: r' b2 fb1 Rb1_def Rb0_def Fb0_def)
  show "fst ` set (resolved (pkgs r')) \<subseteq> fst ` set (resolved (pkgs r)) \<union> fst ` set (fetched (pkgs r'))"
    using g2 by (simp add: r' fp2 Rp2_def Rp0_def Fp1_def)
  show "fst ` set (resolved (subRounds s' k))
            \<subseteq> fst ` set (resolved (subRounds s k))
              \<union> (fst ` set (resolved (build r)) \<union> fst ` set (resolved (pkgs r)))
              \<union> (fst ` set (fetched (build r')) \<union> fst ` set (fetched (pkgs r')))" for k
    using g3[of k] by (simp add: r' s' b2 fb1 fp2 S2_def S0_def Rb0_def Rp0_def Fb0_def Fp1_def)
  show "moveToThis (subRounds s' k) = moveToThis (subRounds s k)" for k
    using A(6)[of k] B(6)[of k] by (simp add: s')
  show "moveToThis (subRounds r' k) = moveToThis (subRounds r k)" for k
    using A(5)[of k] B(5)[of k] by (simp add: r')
qed

lemma fetch_keeps_resolved:
  "fetch e sd lane = Inr (lane', calls) \<Longrightarrow>
   resolved lane' = resolved lane \<and> moveToThis lane' = moveToThis lane"
  by (auto simp: fetch_def Let_def split: prod.splits option.splits)

lemma new_ResolutionRound_fields:
  "resolved (build new_ResolutionRound) = []" "resolved (pkgs new_ResolutionRound) = []"
  "\<not> moveToThis (pkgs new_ResolutionRound)"
  "toFetch (build new_ResolutionRound) = []" "toFetch (pkgs new_ResolutionRound) = []"
  by (simp_all add: new_ResolutionRound_def new_ResolutionSubRound_def)

lemma round_call_Inr_unfold:
  assumes "round_call e prefs dirs sd rr = Inr res"
  obtains build' calls1 pkgs' calls2 self' next' where
    "fetch e sd (build rr) = Inr (build', calls1)"
    "fetch e sd (pkgs rr) = Inr (pkgs', calls2)"
    "resolveDeps e prefs (rr\<lparr>build := build', pkgs := pkgs'\<rparr>) new_ResolutionRound = Inr (self', next')"
    "nextRound res = next'" "self_after res = self'"
    "installDirs_after res = dict_update (dict_update dirs (fetched (build self'))) (fetched (pkgs self'))"
  using assms
  by (auto simp: round_call_def split: sum.splits prod.splits)

lemma round_call_invariant:
  assumes rc: "round_call e prefs dirs sd rr = Inr res"
    and mv: "\<not> moveToThis (pkgs rr)"
    and inv: "resolved_names rr \<subseteq> fst ` set dirs"
  shows "resolved_names (self_after res) \<union> resolved_names (nextRound res)
           \<subseteq> fst ` set (installDirs_after res)"
    and "\<not> moveToThis (pkgs (nextRound res))"
proof -
  from rc obtain build' calls1 pkgs' calls2 self' next' where
    fb: "fetch e sd (build rr) = Inr (build', calls1)"
    and fp: "fetch e sd (pkgs rr) = Inr (pkgs', calls2)"
    and rd: "resolveDeps e prefs (rr\<lparr>build := build', pkgs := pkgs'\<rparr>) new_ResolutionRound
               = Inr (self', next')"
    and res: "nextRound res = next'" "self_after res = self'"
      "installDirs_after res
         = dict_update (dict_update dirs (fetched (build self'))) (fetched (pkgs self'))"
    by (rule round_call_Inr_unfold)
  let ?r = "rr\<lparr>build := build', pkgs := pkgs'\<rparr>"
  from fetch_keeps_resolved[OF fb] fetch_keeps_resolved[OF fp]
  have keep: "resolved build' = resolved (build rr)" "resolved pkgs' = resolved (pkgs rr)"
    "moveToThis pkgs' = moveToThis (pkgs rr)"
    by simp_all
  from keep(3) mv have mv': "\<not> moveToThis (pkgs ?r)"
    by simp
  note E = resolveDeps_effect[OF rd mv']
  define I where "I = fst ` set dirs"
  define Fb where "Fb = fst ` set (fetched (build self'))"
  define Fp where "Fp = fst ` set (fetched (pkgs self'))"
  define Rb0 where "Rb0 = fst ` set (resolved (build rr))"
  define Rp0 where "Rp0 = fst ` set (resolved (pkgs rr))"
  define Rb where "Rb = fst ` set (resolved (build self'))"
  define Rp where "Rp = fst ` set (resolved (pkgs self'))"
  define Sb where "Sb = fst ` set (resolved (build next'))"
  define Sp where "Sp = fst ` set (resolved (pkgs next'))"
  have i0: "Rb0 \<union> Rp0 \<subseteq> I"
    using inv by (simp add: resolved_names_def Rb0_def Rp0_def I_def)
  have e1: "Rb \<subseteq> Rb0 \<union> Fb"
    using E(1) by (simp add: keep Rb_def Rb0_def Fb_def)
  have e2: "Rp \<subseteq> Rp0 \<union> Fp"
    using E(2) by (simp add: keep Rp_def Rp0_def Fp_def)
  have e3: "Sb \<subseteq> (Rb0 \<union> Rp0) \<union> (Fb \<union> Fp)"
    using E(3)[of Build]
    by (simp add: keep new_ResolutionRound_fields Sb_def Rb0_def Rp0_def Fb_def Fp_def)
  have e4: "Sp \<subseteq> (Rb0 \<union> Rp0) \<union> (Fb \<union> Fp)"
    using E(3)[of Pkgs]
    by (simp add: keep new_ResolutionRound_fields Sp_def Rb0_def Rp0_def Fb_def Fp_def)
  have dirs': "fst ` set (installDirs_after res) = I \<union> Fb \<union> Fp"
    by (simp add: res(3) dict_update_keys I_def Fb_def Fp_def)
  have "(Rb \<union> Rp) \<union> (Sb \<union> Sp) \<subseteq> I \<union> Fb \<union> Fp"
    using i0 e1 e2 e3 e4 by blast
  then show "resolved_names (self_after res) \<union> resolved_names (nextRound res)
           \<subseteq> fst ` set (installDirs_after res)"
    by (simp add: dirs' resolved_names_def res(1,2) Rb_def Rp_def Sb_def Sp_def)
  show "\<not> moveToThis (pkgs (nextRound res))"
    using E(4)[of Pkgs] by (simp add: res(1) new_ResolutionRound_fields)
qed

lemma fetch_error: "fetch e sd lane = Inl err \<Longrightarrow> err = NotImplementedError"
  by (auto simp: fetch_def Let_def split: prod.splits option.splits dest: check_ignored_Some)

lemma fetched_items_loop_error:
  "fetched_items_loop e prefs t items st = Inl err \<Longrightarrow> err = UnboundLocalError"
proof (induction items arbitrary: st)
  case Nil
  then show ?case by simp
next
  case (Cons item rest)
  obtain nm dir where item: "item = (nm, dir)" by (cases item)
  let ?st1 = "if \<not> dict_contains nm (ignored (subRounds (this_round st) t)) then
               subroundSuccessorPrefs_loop e prefs t nm dir
                 (extractMetadata e dir) subRounds_keys st
             else st"
  show ?case
  proof (cases "successorSubRound ?st1")
    case None
    with Cons.prems item show ?thesis by (simp add: Let_def)
  next
    case (Some sIdx)
    with Cons.prems item obtain st2 where "fetched_items_loop e prefs t rest st2 = Inl err"
      by (simp add: Let_def)
    then show ?thesis by (rule Cons.IH)
  qed
qed

lemma resolveDeps_error: "resolveDeps e prefs r s = Inl err \<Longrightarrow> err = UnboundLocalError"
  by (auto simp: resolveDeps_def subRounds_keys_def split: sum.splits
           dest: fetched_items_loop_error)

lemma round_call_error: "round_call e prefs dirs sd rr = Inl err \<Longrightarrow> err \<noteq> KeyError"
  by (auto simp: round_call_def split: sum.splits prod.splits
           dest: fetch_error resolveDeps_error)

lemma buildAndInstallWheel_loop_ok:
  "set ts \<subseteq> fst ` set dirs \<Longrightarrow> \<exists>l. buildAndInstallWheel_loop dirs ts acc = Inr l"
proof (induction ts arbitrary: acc)
  case Nil
  then show ?case by simp
next
  case (Cons t ts)
  then have "t \<in> fst ` set dirs" by simp
  then obtain d where d: "map_of dirs t = Some d"
    by (cases "map_of dirs t") (auto simp: map_of_eq_None_iff)
  from Cons.prems have "set ts \<subseteq> fst ` set dirs" by simp
  from Cons.IH[OF this, of "acc @ [d]"] d show ?case by simp
qed

lemma subround_buildAndInstallWheel_ok:
  "fst ` set (resolved lane) \<subseteq> fst ` set dirs \<Longrightarrow>
   \<exists>l. subround_buildAndInstallWheel dirs lane acc = Inr l"
  using buildAndInstallWheel_loop_ok[of "map fst (resolved lane)" dirs acc]
  by (simp add: subround_buildAndInstallWheel_def)

lemma round_buildAndInstallWheel_ok:
  assumes "resolved_names rr \<subseteq> fst ` set dirs"
  shows "\<exists>l. round_buildAndInstallWheel dirs rr = Inr l"
proof -
  from assms have b: "fst ` set (resolved (build rr)) \<subseteq> fst ` set dirs"
    and p: "fst ` set (resolved (pkgs rr)) \<subseteq> fst ` set dirs"
    by (simp_all add: resolved_names_def)
  from subround_buildAndInstallWheel_ok[OF b, of "[]"] obtain l1 where
    l1: "subround_buildAndInstallWheel dirs (build rr) [] = Inr l1"
    by blast
  from subround_buildAndInstallWheel_ok[OF p, of l1] l1 show ?thesis
    by (simp add: round_buildAndInstallWheel_def)
qed

lemma while_rr_invariant:
  "while_rr n e prefs sd rr self = Some (err, rr', self') \<Longrightarrow>
   \<not> moveToThis (pkgs rr) \<Longrightarrow> resolved_names rr \<subseteq> fst ` set (installDirs self) \<Longrightarrow>
   err \<noteq> Some KeyError \<and> (err = None \<longrightarrow> resolved_names rr' \<subseteq> fst ` set (installDirs self'))"
proof (induction n arbitrary: rr self)
  case 0
  then show ?case by (auto split: if_splits)
next
  case (Suc n)
  show ?case
  proof (cases "round_bool rr")
    case False
    with Suc.prems show ?thesis by auto
  next
    case True
    show ?thesis
    proof (cases "round_call e (clone prefs (Some False) None None) (installDirs self) sd rr")
      case (Inl er)
      from round_call_error[OF Inl] Inl True Suc.prems(1) show ?thesis by auto
    next
      case (Inr res)
      let ?self1 = "self\<lparr>installDirs := installDirs_after res,
                      rounds_called := rounds_called self @ [self_after res],
                      fetch_log := fetch_log self @ fetcher_calls res\<rparr>"
      from Inr True Suc.prems(1)
      have w: "while_rr n e prefs sd (nextRound res) ?self1 = Some (err, rr', self')"
        by simp
      from round_call_invariant[OF Inr Suc.prems(2,3)]
      have "resolved_names (nextRound res) \<subseteq> fst ` set (installDirs ?self1)"
        and "\<not> moveToThis (pkgs (nextRound res))"
        by simp_all
      from Suc.IH[OF w this(2) this(1)] show ?thesis .
    qed
  qed
qed

lemma downloadPackagesAndTheirDependencies_no_KeyError:
  assumes "downloadPackagesAndTheirDependencies fuel e prefs names self = Some (err, s)"
  shows "err \<noteq> Some KeyError"
proof -
  let ?rr0 = "new_ResolutionRound"
  let ?rr = "?rr0\<lparr>pkgs := (pkgs ?rr0)\<lparr>toFetch := dict_update (toFetch (pkgs ?rr0))
               (dict_update [] (map (\<lambda>el. (canonicalizedRequirement_name e el, One)) names))\<rparr>\<rparr>"
  have mv: "\<not> moveToThis (pkgs ?rr)"
    by (simp add: new_ResolutionRound_fields)
  have inv: "resolved_names ?rr \<subseteq> fst ` set (installDirs self)"
    by (simp add: resolved_names_def new_ResolutionRound_fields)
  show ?thesis
  proof (cases "while_rr fuel e prefs (sourcesDir_path self) ?rr self")
    case None
    with assms show ?thesis
      by (simp add: downloadPackagesAndTheirDependencies_def Let_def)
  next
    case (Some w)
    obtain er rr' self' where w: "w = (er, rr', self')" by (cases w)
    from while_rr_invariant[OF Some[unfolded w] mv inv]
    have nk: "er \<noteq> Some KeyError"
      and ok: "er = None \<longrightarrow> resolved_names rr' \<subseteq> fst ` set (installDirs self')"
      by simp_all
    show ?thesis
    proof (cases er)
      case None
      with ok round_buildAndInstallWheel_ok[of rr' "installDirs self'"]
      obtain l where "round_buildAndInstallWheel (installDirs self') rr' = Inr l"
        by blast
      with assms Some w None show ?thesis
        by (auto simp: downloadPackagesAndTheirDependencies_def Let_def)
    next
      case (Some er')
      with assms \<open>while_rr fuel e prefs (sourcesDir_path self) ?rr self = Some w\<close> w nk
      show ?thesis
        by (auto simp: downloadPackagesAndTheirDependencies_def Let_def)
    qed
  qed
qed

text \<open>
  C10. After a call of a round whose package lane has \<open>moveToThis\<close> false (as the
  constructor sets it) and whose resolved names are keys of \<open>installDirs\<close>, every name
  resolved in a lane of that round or of the next round returned is a key of
  \<open>installDirs\<close> as the call leaves it, and the next round's package lane has
  \<open>moveToThis\<close> false again. So, starting from the first round (nothing resolved), the
  lookups \<open>installDirs[t]\<close> of the build-and-install phase never raise \<open>KeyError\<close>.
\<close>

theorem round_call_resolved_in_installDirs:
  "(\<forall>res. round_call e prefs dirs sd rr = Inr res \<and> \<not> moveToThis (pkgs rr)
           \<and> resolved_names rr \<subseteq> fst ` set dirs \<longrightarrow>
         resolved_names (self_after res) \<union> resolved_names (nextRound res)
           \<subseteq> fst ` set (installDirs_after res)
         \<and> \<not> moveToThis (pkgs (nextRound res))) \<and>
   (\<forall>err s. downloadPackagesAndTheirDependencies fuel e prefs names self = Some (err, s)
         \<longrightarrow> err \<noteq> Some KeyError)"
proof (intro conjI allI impI)
  fix res
  assume h: "round_call e prefs dirs sd rr = Inr res \<and> \<not> moveToThis (pkgs rr)
           \<and> resolved_names rr \<subseteq> fst ` set dirs"
  then have a: "round_call e prefs dirs sd rr = Inr res"
    and b: "\<not> moveToThis (pkgs rr)"
    and c: "resolved_names rr \<subseteq> fst ` set dirs"
    by simp_all
  show "resolved_names (self_after res) \<union> resolved_names (nextRound res)
           \<subseteq> fst ` set (installDirs_after res)"
    by (rule round_call_invariant(1)[OF a b c])
  show "\<not> moveToThis (pkgs (nextRound res))"
    by (rule round_call_invariant(2)[OF a b c])
next
  fix err s
  assume "downloadPackagesAndTheirDependencies fuel e prefs names self = Some (err, s)"
  then show "err \<noteq> Some KeyError"
    by (rule downloadPackagesAndTheirDependencies_no_KeyError)
qed

theorem round_call_resolved_in_installDirs_witness:
  "\<exists>res.
     round_call scenario_env default_prefs [(''A'', Dir [''install_t'', ''A''])] [''install_t'']
       (new_ResolutionRound
          \<lparr>build := (build new_ResolutionRound)\<lparr>toFetch := [(''B'', One)]\<rparr>,
           pkgs := (pkgs new_ResolutionRound)\<lparr>resolved := [(''A'', Dir [''install_t'', ''A''])]\<rparr>\<rparr>)
       = Inr res \<and>
     resolved_names (self_after res) \<union> resolved_names (nextRound res)
       \<subseteq> fst ` set (installDirs_after res) \<and>
     (\<exists>s. downloadPackagesAndTheirDependencies 10 scenario_env default_prefs [''A'']
            new_PackagesInstaller = Some (None, s))"
proof -
  let ?dirs = "[(''A'', Dir [''install_t'', ''A''])]"
  let ?rr = "new_ResolutionRound
          \<lparr>build := (build new_ResolutionRound)\<lparr>toFetch := [(''B'', One)]\<rparr>,
           pkgs := (pkgs new_ResolutionRound)\<lparr>resolved := [(''A'', Dir [''install_t'', ''A''])]\<rparr>\<rparr>"
  have "\<not> isl (round_call scenario_env default_prefs ?dirs [''install_t''] ?rr)"
    by code_simp
  then obtain res where r: "round_call scenario_env default_prefs ?dirs [''install_t''] ?rr = Inr res"
    by (cases "round_call scenario_env default_prefs ?dirs [''install_t''] ?rr") auto
  have mv: "\<not> moveToThis (pkgs ?rr)"
    by code_simp
  have inv: "resolved_names ?rr \<subseteq> fst ` set ?dirs"
    by code_simp
  have "downloadPackagesAndTheirDependencies 10 scenario_env default_prefs [''A'']
            new_PackagesInstaller \<noteq> None"
    by code_simp
  then obtain err s where d: "downloadPackagesAndTheirDependencies 10 scenario_env default_prefs
      [''A''] new_PackagesInstaller = Some (err, s)"
    by (cases "downloadPackagesAndTheirDependencies 10 scenario_env default_prefs [''A'']
            new_PackagesInstaller") auto
  have "map_option fst (downloadPackagesAndTheirDependencies 10 scenario_env default_prefs
      [''A''] new_PackagesInstaller) = Some None"
    by code_simp
  with d have e: "err = None"
    by simp
  note t = round_call_resolved_in_installDirs[of scenario_env default_prefs ?dirs "[''install_t'']"
      ?rr 10 "[''A'']" new_PackagesInstaller]
  from t r mv inv
  have "resolved_names (self_after res) \<union> resolved_names (nextRound res)
       \<subseteq> fst ` set (installDirs_after res)"
    by blast
  with r d e show ?thesis
    by blast
qed

end
